theory Spec2Isabelle
  imports Main "HOL-Library.Word"
begin

section \<open>c4: a C compiler in four functions, embedded in HOL\<close>

text \<open>
  The source redefines \<^verbatim>\<open>int\<close> as \<^verbatim>\<open>long long\<close>: every integer variable, every cell of
  the text segment and every slot of a symbol record is a 64-bit machine word.
  Comparisons are signed.
\<close>

type_synonym cell = "64 word"

subsection \<open>The three enumerations\<close>

text \<open>Tokens and classes, starting at 128 (source lines 42-53).\<close>

abbreviation (input) Num :: cell where "Num \<equiv> 128"
abbreviation (input) Fun :: cell where "Fun \<equiv> 129"
abbreviation (input) Sys :: cell where "Sys \<equiv> 130"
abbreviation (input) Glo :: cell where "Glo \<equiv> 131"
abbreviation (input) Loc :: cell where "Loc \<equiv> 132"
abbreviation (input) Id' :: cell where "Id' \<equiv> 133"
abbreviation (input) Char' :: cell where "Char' \<equiv> 134"
abbreviation (input) Else :: cell where "Else \<equiv> 135"
abbreviation (input) Enum :: cell where "Enum \<equiv> 136"
abbreviation (input) If' :: cell where "If' \<equiv> 137"
abbreviation (input) Int' :: cell where "Int' \<equiv> 138"
abbreviation (input) Return :: cell where "Return \<equiv> 139"
abbreviation (input) Sizeof :: cell where "Sizeof \<equiv> 140"
abbreviation (input) While :: cell where "While \<equiv> 141"
abbreviation (input) Assign :: cell where "Assign \<equiv> 142"
abbreviation (input) Cond :: cell where "Cond \<equiv> 143"
abbreviation (input) Lor :: cell where "Lor \<equiv> 144"
abbreviation (input) Lan :: cell where "Lan \<equiv> 145"
abbreviation (input) Or :: cell where "Or \<equiv> 146"
abbreviation (input) Xor :: cell where "Xor \<equiv> 147"
abbreviation (input) And :: cell where "And \<equiv> 148"
abbreviation (input) Eq :: cell where "Eq \<equiv> 149"
abbreviation (input) Ne :: cell where "Ne \<equiv> 150"
abbreviation (input) Lt :: cell where "Lt \<equiv> 151"
abbreviation (input) Gt :: cell where "Gt \<equiv> 152"
abbreviation (input) Le :: cell where "Le \<equiv> 153"
abbreviation (input) Ge :: cell where "Ge \<equiv> 154"
abbreviation (input) Shl :: cell where "Shl \<equiv> 155"
abbreviation (input) Shr :: cell where "Shr \<equiv> 156"
abbreviation (input) Add :: cell where "Add \<equiv> 157"
abbreviation (input) Sub :: cell where "Sub \<equiv> 158"
abbreviation (input) Mul :: cell where "Mul \<equiv> 159"
abbreviation (input) Div :: cell where "Div \<equiv> 160"
abbreviation (input) Mod :: cell where "Mod \<equiv> 161"
abbreviation (input) Inc :: cell where "Inc \<equiv> 162"
abbreviation (input) Dec :: cell where "Dec \<equiv> 163"
abbreviation (input) Brak :: cell where "Brak \<equiv> 164"

text \<open>Opcodes, starting at 0 (source lines 57-66).\<close>

abbreviation (input) LEA :: cell where "LEA \<equiv> 0"
abbreviation (input) IMM :: cell where "IMM \<equiv> 1"
abbreviation (input) JMP :: cell where "JMP \<equiv> 2"
abbreviation (input) JSR :: cell where "JSR \<equiv> 3"
abbreviation (input) BZ :: cell where "BZ \<equiv> 4"
abbreviation (input) BNZ :: cell where "BNZ \<equiv> 5"
abbreviation (input) ENT :: cell where "ENT \<equiv> 6"
abbreviation (input) ADJ :: cell where "ADJ \<equiv> 7"
abbreviation (input) LEV :: cell where "LEV \<equiv> 8"
abbreviation (input) LI :: cell where "LI \<equiv> 9"
abbreviation (input) LC :: cell where "LC \<equiv> 10"
abbreviation (input) SI :: cell where "SI \<equiv> 11"
abbreviation (input) SC :: cell where "SC \<equiv> 12"
abbreviation (input) PSH :: cell where "PSH \<equiv> 13"
abbreviation (input) OR :: cell where "OR \<equiv> 14"
abbreviation (input) XOR :: cell where "XOR \<equiv> 15"
abbreviation (input) AND :: cell where "AND \<equiv> 16"
abbreviation (input) EQ :: cell where "EQ \<equiv> 17"
abbreviation (input) NE :: cell where "NE \<equiv> 18"
abbreviation (input) LT :: cell where "LT \<equiv> 19"
abbreviation (input) GT :: cell where "GT \<equiv> 20"
abbreviation (input) LE :: cell where "LE \<equiv> 21"
abbreviation (input) GE :: cell where "GE \<equiv> 22"
abbreviation (input) SHL :: cell where "SHL \<equiv> 23"
abbreviation (input) SHR :: cell where "SHR \<equiv> 24"
abbreviation (input) ADD :: cell where "ADD \<equiv> 25"
abbreviation (input) SUB :: cell where "SUB \<equiv> 26"
abbreviation (input) MUL :: cell where "MUL \<equiv> 27"
abbreviation (input) DIV :: cell where "DIV \<equiv> 28"
abbreviation (input) MOD :: cell where "MOD \<equiv> 29"
abbreviation (input) OPEN :: cell where "OPEN \<equiv> 30"
abbreviation (input) READ :: cell where "READ \<equiv> 31"
abbreviation (input) CLOS :: cell where "CLOS \<equiv> 32"
abbreviation (input) PRTF :: cell where "PRTF \<equiv> 33"
abbreviation (input) MALC :: cell where "MALC \<equiv> 34"
abbreviation (input) FREE :: cell where "FREE \<equiv> 35"
abbreviation (input) MSET :: cell where "MSET \<equiv> 36"
abbreviation (input) MCMP :: cell where "MCMP \<equiv> 37"
abbreviation (input) EXIT :: cell where "EXIT \<equiv> 38"

text \<open>Types (source line 70); a pointer level adds \<open>PTR\<close>.\<close>

abbreviation (input) CHAR' :: cell where "CHAR' \<equiv> 0"
abbreviation (input) INT' :: cell where "INT' \<equiv> 1"
abbreviation (input) PTR :: cell where "PTR \<equiv> 2"

text \<open>\<^verbatim>\<open>sizeof(int)\<close> and \<^verbatim>\<open>sizeof(char)\<close> under \<^verbatim>\<open>#define int long long\<close>.\<close>

abbreviation (input) sizeof_int :: cell where "sizeof_int \<equiv> 8"
abbreviation (input) sizeof_char :: cell where "sizeof_char \<equiv> 1"

subsection \<open>Compiler state\<close>

text \<open>
  A symbol record (source lines 75-86). A \<^verbatim>\<open>char *\<close> into an immutable buffer is
  represented by the string it points to, so \<open>Name\<close> holds the buffer from the first
  character of the lexeme on.
\<close>

record symrec =
  Tk :: cell
  Hash :: cell
  Name :: string
  Class :: cell
  Type :: cell
  Val :: cell
  HClass :: cell
  HType :: cell
  HVal :: cell

definition zero_sym :: symrec where
  "zero_sym = \<lparr>Tk = 0, Hash = 0, Name = [], Class = 0, Type = 0, Val = 0,
     HClass = 0, HType = 0, HVal = 0\<rparr>"

text \<open>One call of \<^verbatim>\<open>printf\<close>: the format and the arguments passed.\<close>

datatype parg = I cell | S string

datatype out_ev = Printf string "parg list"

text \<open>
  The globals of the source (lines 23-38), and the two things they point into that the
  compiler writes: the data pool \<open>mem\<close> (bytes by address) and standard output \<open>out\<close>.

  \<^item> \<open>p\<close>, \<open>lp\<close>: the rest of the source buffer from the pointer on. The end of the
    list is the terminating NUL; the pool behind it reads as 0.
  \<^item> \<open>e\<close>: the cells of the text pool from its first cell up to the cell that the
    pointer \<^verbatim>\<open>e\<close> designates, so \<^verbatim>\<open>*e\<close> is the last element and \<^verbatim>\<open>*++e = x\<close> appends.
    The pool is zeroed, so the list starts as \<open>[0]\<close>. \<open>ebase\<close> is the address of
    the pool: cell \<open>k\<close> of the list lies at \<open>ebase + 8 * k\<close>.
  \<^item> \<open>le\<close>, \<open>id'\<close>: indices into the text pool and into the symbol table.
  \<^item> \<open>sym\<close>: the records of the symbol pool that have been touched; the zeroed rest
    of the pool is implicit.
\<close>

record cstate =
  p :: string
  lp :: string
  data :: cell
  ebase :: cell
  e :: "cell list"
  le :: nat
  id' :: nat
  sym :: "symrec list"
  tk :: cell
  ival :: cell
  ty :: cell
  loc :: cell
  line :: cell
  src :: cell
  debug :: cell
  mem :: "cell \<Rightarrow> 8 word"
  out :: "out_ev list"

text \<open>Reading a \<^verbatim>\<open>char\<close> as an \<^verbatim>\<open>int\<close>: sign extension (\<^verbatim>\<open>char\<close> is signed on the target).\<close>

definition cval :: "char \<Rightarrow> cell" where
  "cval c = (if (of_char c :: nat) < 128 then of_nat (of_char c) else of_nat (of_char c) - 256)"

text \<open>\<^verbatim>\<open>*p\<close> for a pointer into the source buffer.\<close>

fun peek :: "string \<Rightarrow> cell" where
  "peek [] = 0"
| "peek (c # cs) = cval c"

lemma peek_nonzero_length: "peek cs \<noteq> 0 \<Longrightarrow> length (tl cs) < length cs"
  by (cases cs) auto

text \<open>A record of the symbol pool by index; records never touched are zero.\<close>

definition sym_at :: "symrec list \<Rightarrow> nat \<Rightarrow> symrec" where
  "sym_at tab i = (if i < length tab then tab ! i else zero_sym)"

definition sym_upd :: "nat \<Rightarrow> (symrec \<Rightarrow> symrec) \<Rightarrow> symrec list \<Rightarrow> symrec list" where
  "sym_upd i f tab =
     (let tab' = tab @ replicate (Suc i - length tab) zero_sym in tab'[i := f (tab' ! i)])"

text \<open>A cell of the text pool by index; cells behind \<^verbatim>\<open>e\<close> read as zero.\<close>

definition cell_at :: "cell list \<Rightarrow> nat \<Rightarrow> cell" where
  "cell_at cs i = (if i < length cs then cs ! i else 0)"

text \<open>\<^verbatim>\<open>printf(fmt, args)\<close>.\<close>

definition printf :: "string \<Rightarrow> parg list \<Rightarrow> cstate \<Rightarrow> cstate" where
  "printf fmt args s = s\<lparr>out := out s @ [Printf fmt args]\<rparr>"

subsection \<open>The lexer: \<^verbatim>\<open>next()\<close>\<close>

text \<open>The table of mnemonics indexed by \<^verbatim>\<open>opcode * 5\<close> (lines 116-118 and 612-614).\<close>

definition mnemonics :: string where
  "mnemonics = ''LEA ,IMM ,JMP ,JSR ,BZ  ,BNZ ,ENT ,ADJ ,LEV ,LI  ,LC  ,SI  ,SC  ,PSH ,'' @
               ''OR  ,XOR ,AND ,EQ  ,NE  ,LT  ,GT  ,LE  ,GE  ,SHL ,SHR ,ADD ,SUB ,MUL ,DIV ,MOD ,'' @
               ''OPEN,READ,CLOS,PRTF,MALC,FREE,MSET,MCMP,EXIT,''"

text \<open>The test \<^verbatim>\<open>*le <= ADJ\<close> of line 120 and \<^verbatim>\<open>i <= ADJ\<close> of line 615: an operand follows.\<close>

definition has_operand :: "cell \<Rightarrow> bool" where
  "has_operand i \<longleftrightarrow> i <=s ADJ"

text \<open>
  The listing loop of lines 114-121: \<open>k\<close> is \<^verbatim>\<open>le\<close>, \<open>cs\<close> the text pool up to \<^verbatim>\<open>e\<close>.
  Returns the calls of \<^verbatim>\<open>printf\<close> made and the final \<^verbatim>\<open>le\<close>.
\<close>

function listing :: "cell list \<Rightarrow> nat \<Rightarrow> out_ev list \<times> nat" where
  "listing cs k =
     (if Suc k < length cs then
        let opc = cell_at cs (Suc k);
            ev = Printf ''%8.4s'' [S (drop (unat (opc * 5)) mnemonics)]
        in if has_operand opc
           then (let r = listing cs (Suc (Suc k))
                 in (ev # Printf '' %d\<newline>'' [I (cell_at cs (Suc (Suc k)))] # fst r, snd r))
           else (let r = listing cs (Suc k)
                 in (ev # Printf ''\<newline>'' [] # fst r, snd r))
      else ([], k))"
  by pat_completeness auto
termination
  by (relation "measure (\<lambda>(cs, k). length cs - k)") auto

text \<open>\<^verbatim>\<open>while (*p != 0 && *p != '\n') ++p;\<close> (lines 128 and 185).\<close>

fun skip_line :: "string \<Rightarrow> string" where
  "skip_line [] = []"
| "skip_line (c # cs) = (if cval c \<noteq> 0 \<and> cval c \<noteq> 10 then skip_line cs else c # cs)"

text \<open>The character tests of lines 133 and 136-137, on a value read as \<^verbatim>\<open>int\<close>.\<close>

definition is_letter :: "cell \<Rightarrow> bool" where
  "is_letter x \<longleftrightarrow> (97 <=s x \<and> x <=s 122) \<or> (65 <=s x \<and> x <=s 90) \<or> x = 95"

definition is_digit :: "cell \<Rightarrow> bool" where
  "is_digit x \<longleftrightarrow> 48 <=s x \<and> x <=s 57"

text \<open>
  The identifier loop of lines 136-138: \<^verbatim>\<open>tk = tk * 147 + *p++\<close> while the next
  character is a letter, a digit or an underscore. Returns the hash and the new \<^verbatim>\<open>p\<close>.
\<close>

fun scan_ident :: "cell \<Rightarrow> string \<Rightarrow> cell \<times> string" where
  "scan_ident h [] = (h, [])"
| "scan_ident h (c # cs) =
     (if is_letter (cval c) \<or> is_digit (cval c) then scan_ident (h * 147 + cval c) cs
      else (h, c # cs))"

text \<open>
  The table walk of lines 144-152 from record \<open>i\<close>: stops at the first record whose
  \<open>Tk\<close> is zero, or at a record with the same hash whose name agrees with the lexeme on
  its \<open>n\<close> bytes (\<^verbatim>\<open>memcmp\<close>). Returns the index reached and whether it is a match.
\<close>

fun sym_walk :: "symrec list \<Rightarrow> nat \<Rightarrow> cell \<Rightarrow> string \<Rightarrow> nat \<Rightarrow> nat \<times> bool" where
  "sym_walk [] i h pp n = (i, False)"
| "sym_walk (r # rs) i h pp n =
     (if Tk r = 0 then (i, False)
      else if h = Hash r \<and> take n (Name r) = take n pp then (i, True)
      else sym_walk rs (Suc i) h pp n)"

text \<open>The three number loops of lines 165, 169-171 and 175.\<close>

fun scan_dec :: "cell \<Rightarrow> string \<Rightarrow> cell \<times> string" where
  "scan_dec v [] = (v, [])"
| "scan_dec v (c # cs) =
     (if is_digit (cval c) then scan_dec (v * 10 + cval c - 48) cs else (v, c # cs))"

definition is_hex :: "cell \<Rightarrow> bool" where
  "is_hex x \<longleftrightarrow> (48 <=s x \<and> x <=s 57) \<or> (97 <=s x \<and> x <=s 102) \<or> (65 <=s x \<and> x <=s 70)"

text \<open>
  \<^verbatim>\<open>while ((tk = *++p) && hex(tk)) ival = ...\<close>: the argument is the buffer behind the
  pre-increment; returns \<^verbatim>\<open>ival\<close>, the last value assigned to \<^verbatim>\<open>tk\<close> and \<^verbatim>\<open>p\<close>.
\<close>

fun scan_hex :: "cell \<Rightarrow> string \<Rightarrow> cell \<times> cell \<times> string" where
  "scan_hex v [] = (v, 0, [])"
| "scan_hex v (c # cs) =
     (if cval c \<noteq> 0 \<and> is_hex (cval c)
      then scan_hex (v * 16 + (and (cval c) 15) + (if 65 <=s cval c then 9 else 0)) cs
      else (v, cval c, c # cs))"

fun scan_oct :: "cell \<Rightarrow> string \<Rightarrow> cell \<times> string" where
  "scan_oct v [] = (v, [])"
| "scan_oct v (c # cs) =
     (if 48 <=s cval c \<and> cval c <=s 55 then scan_oct (v * 8 + cval c - 48) cs else (v, c # cs))"

text \<open>
  The literal loop of lines 196-201 for the quote \<open>q\<close>: returns \<^verbatim>\<open>ival\<close>, \<^verbatim>\<open>data\<close>, the
  data pool and \<^verbatim>\<open>p\<close>, which is left on the closing quote or on the terminator.
\<close>

fun scan_lit :: "cell \<Rightarrow> cell \<Rightarrow> cell \<Rightarrow> (cell \<Rightarrow> 8 word) \<Rightarrow> string
    \<Rightarrow> cell \<times> cell \<times> (cell \<Rightarrow> 8 word) \<times> string" where
  "scan_lit q v d m [] = (v, d, m, [])"
| "scan_lit q v d m (c # cs) =
     (if cval c \<noteq> 0 \<and> cval c \<noteq> q then
        (let v1 = cval c;
             esc = (v1 = 92);
             v2 = (if esc then (if peek cs = 110 then 10 else peek cs) else v1);
             cs2 = (if esc then tl cs else cs)
         in if q = 34 then scan_lit q v2 (d + 1) (m(d := ucast v2)) cs2
            else scan_lit q v2 d m cs2)
      else (v, d, m, c # cs))"

text \<open>Lines 109-123: a newline has been read (and \<^verbatim>\<open>p\<close> moved behind it).\<close>

definition newline :: "cstate \<Rightarrow> cstate" where
  "newline s =
     (let s1 = (if src s \<noteq> 0 then
                  (let s' = printf ''%d: %.*s''
                              [I (line s), I (of_nat (length (lp s)) - of_nat (length (p s))), S (lp s)] s;
                       s'' = s'\<lparr>lp := p s'\<rparr>;
                       r = listing (e s'') (le s'')
                   in s''\<lparr>out := out s'' @ fst r, le := snd r\<rparr>)
                else s)
      in s1\<lparr>line := line s1 + 1\<rparr>)"

text \<open>
  Lines 134-158: the first character of a name has been read into \<^verbatim>\<open>tk\<close>; \<open>pp\<close> is the
  buffer from that character on.
\<close>

definition ident :: "string \<Rightarrow> cstate \<Rightarrow> cstate" where
  "ident pp s =
     (let r = scan_ident (tk s) (p s);
          n = length pp - length (snd r);
          h = push_bit 6 (fst r) + of_nat n;
          w = sym_walk (sym s) 0 h pp n;
          s1 = s\<lparr>p := snd r, tk := h, id' := fst w\<rparr>
      in if snd w then s1\<lparr>tk := Tk (sym_at (sym s1) (id' s1))\<rparr>
         else s1\<lparr>sym := sym_upd (id' s1) (\<lambda>r. r\<lparr>Name := pp, Hash := h, Tk := Id'\<rparr>) (sym s1),
                tk := Id'\<rparr>)"

text \<open>Lines 164-178: the first digit of a number has been read into \<^verbatim>\<open>tk\<close>.\<close>

definition number :: "cstate \<Rightarrow> cstate" where
  "number s =
     (if tk s - 48 \<noteq> 0 then
        (let r = scan_dec (tk s - 48) (p s) in s\<lparr>ival := fst r, p := snd r, tk := Num\<rparr>)
      else if peek (p s) = 120 \<or> peek (p s) = 88 then
        (let r = scan_hex 0 (tl (p s)) in s\<lparr>ival := fst r, p := snd (snd r), tk := Num\<rparr>)
      else
        (let r = scan_oct 0 (p s) in s\<lparr>ival := fst r, p := snd r, tk := Num\<rparr>))"

text \<open>Lines 195-204: an opening quote has been read into \<^verbatim>\<open>tk\<close>.\<close>

definition literal :: "cstate \<Rightarrow> cstate" where
  "literal s =
     (let pp = data s;
          r = scan_lit (tk s) (ival s) (data s) (mem s) (p s);
          s1 = s\<lparr>ival := fst r, data := fst (snd r), mem := fst (snd (snd r)),
                 p := tl (snd (snd (snd r)))\<rparr>
      in if tk s = 34 then s1\<lparr>ival := pp\<rparr> else s1\<lparr>tk := Num\<rparr>)"

lemma length_skip_line: "length (skip_line cs) \<le> length cs"
  by (induction cs) auto

lemma p_newline: "p (newline s) = p s"
  by (simp add: newline_def Let_def printf_def)

text \<open>
  \<^verbatim>\<open>void next()\<close> (lines 100-229). The four recursive calls are the four ways round
  the loop \<^verbatim>\<open>while (tk = *p)\<close>: a newline, a \<^verbatim>\<open>#\<close> line, a \<^verbatim>\<open>//\<close> comment and a
  character that no branch takes.
\<close>

function next' :: "cstate \<Rightarrow> cstate" where
  "next' s0 =
    (if peek (p s0) = 0 then s0\<lparr>tk := 0\<rparr>
     else
      (let s = s0\<lparr>tk := peek (p s0), p := tl (p s0)\<rparr> in
       if tk s = 10 then next' (newline s)
       else if tk s = 35 then next' (s\<lparr>p := skip_line (p s)\<rparr>)
       else if is_letter (tk s) then ident (p s0) s
       else if 48 <=s tk s \<and> tk s <=s 57 then number s
       else if tk s = 47 then
         (if peek (p s) = 47 then next' (s\<lparr>p := skip_line (tl (p s))\<rparr>)
          else s\<lparr>tk := Div\<rparr>)
       else if tk s = 39 \<or> tk s = 34 then literal s
       else if tk s = 61 then
         (if peek (p s) = 61 then s\<lparr>p := tl (p s), tk := Eq\<rparr> else s\<lparr>tk := Assign\<rparr>)
       else if tk s = 43 then
         (if peek (p s) = 43 then s\<lparr>p := tl (p s), tk := Inc\<rparr> else s\<lparr>tk := Add\<rparr>)
       else if tk s = 45 then
         (if peek (p s) = 45 then s\<lparr>p := tl (p s), tk := Dec\<rparr> else s\<lparr>tk := Sub\<rparr>)
       else if tk s = 33 then
         (if peek (p s) = 61 then s\<lparr>p := tl (p s), tk := Ne\<rparr> else s)
       else if tk s = 60 then
         (if peek (p s) = 61 then s\<lparr>p := tl (p s), tk := Le\<rparr>
          else if peek (p s) = 60 then s\<lparr>p := tl (p s), tk := Shl\<rparr>
          else s\<lparr>tk := Lt\<rparr>)
       else if tk s = 62 then
         (if peek (p s) = 61 then s\<lparr>p := tl (p s), tk := Ge\<rparr>
          else if peek (p s) = 62 then s\<lparr>p := tl (p s), tk := Shr\<rparr>
          else s\<lparr>tk := Gt\<rparr>)
       else if tk s = 124 then
         (if peek (p s) = 124 then s\<lparr>p := tl (p s), tk := Lor\<rparr> else s\<lparr>tk := Or\<rparr>)
       else if tk s = 38 then
         (if peek (p s) = 38 then s\<lparr>p := tl (p s), tk := Lan\<rparr> else s\<lparr>tk := And\<rparr>)
       else if tk s = 94 then s\<lparr>tk := Xor\<rparr>
       else if tk s = 37 then s\<lparr>tk := Mod\<rparr>
       else if tk s = 42 then s\<lparr>tk := Mul\<rparr>
       else if tk s = 91 then s\<lparr>tk := Brak\<rparr>
       else if tk s = 63 then s\<lparr>tk := Cond\<rparr>
       else if tk s = 126 \<or> tk s = 59 \<or> tk s = 123 \<or> tk s = 125 \<or> tk s = 40 \<or>
               tk s = 41 \<or> tk s = 93 \<or> tk s = 44 \<or> tk s = 58 then s
       else next' s))"
  by pat_completeness auto
termination
proof (relation "measure (\<lambda>s. length (p s))")
  fix s0 s :: cstate
  assume nz: "peek (p s0) \<noteq> 0" and s: "s = s0\<lparr>tk := peek (p s0), p := tl (p s0)\<rparr>"
  from nz have t: "length (tl (p s0)) < length (p s0)" by (rule peek_nonzero_length)
  show "(newline s, s0) \<in> measure (\<lambda>s. length (p s))"
    using t s by (simp add: p_newline)
  show "(s\<lparr>p := skip_line (p s)\<rparr>, s0) \<in> measure (\<lambda>s. length (p s))"
    using t s length_skip_line [of "tl (p s0)"] by simp
  show "(s\<lparr>p := skip_line (tl (p s))\<rparr>, s0) \<in> measure (\<lambda>s. length (p s))"
    using t s length_skip_line [of "tl (tl (p s0))"] by (cases "tl (p s0)") auto
  show "(s, s0) \<in> measure (\<lambda>s. length (p s))"
    using t s by simp
qed simp

declare next'.simps [simp del]

subsection \<open>Control: \<^verbatim>\<open>exit(-1)\<close>, and fuel for the loops of the parser\<close>

text \<open>
  \<open>Exit s\<close>: the process has ended with status \<open>-1\<close> (a call of \<^verbatim>\<open>exit(-1)\<close>, or a
  \<^verbatim>\<open>return -1\<close> of \<^verbatim>\<open>main\<close>) in state \<open>s\<close>. \<open>Cont x\<close>: control goes on with \<open>x\<close>.
  \<open>OutOfFuel\<close> is not a behaviour of the program: the parser's recursion and loops
  are bounded by a fuel argument, and this is the result when it runs out.
\<close>

datatype 'a res = Exit cstate | Cont 'a | OutOfFuel

fun andthen :: "'a res \<Rightarrow> ('a \<Rightarrow> 'b res) \<Rightarrow> 'b res" where
  "andthen (Exit s) f = Exit s"
| "andthen (Cont x) f = f x"
| "andthen OutOfFuel f = OutOfFuel"

lemma andthen_cong [fundef_cong]:
  "r = r' \<Longrightarrow> (\<And>x. r' = Cont x \<Longrightarrow> f x = f' x) \<Longrightarrow> andthen r f = andthen r' f'"
  by (cases r') auto

text \<open>\<^verbatim>\<open>{ printf(msg, line); exit(-1); }\<close>\<close>

definition fail :: "string \<Rightarrow> cstate \<Rightarrow> 'a res" where
  "fail msg s = Exit (printf msg [I (line s)] s)"

text \<open>\<^verbatim>\<open>if (tk == c) next(); else { printf(msg, line); exit(-1); }\<close>\<close>

definition expect :: "cell \<Rightarrow> string \<Rightarrow> cstate \<Rightarrow> cstate res" where
  "expect c msg s = (if tk s = c then Cont (next' s) else fail msg s)"

subsection \<open>The text pool\<close>

text \<open>\<^verbatim>\<open>*++e = x1; ...; *++e = xn;\<close>\<close>

definition emits :: "cell list \<Rightarrow> cstate \<Rightarrow> cstate" where
  "emits xs s = s\<lparr>e := e s @ xs\<rparr>"

text \<open>The pointer \<^verbatim>\<open>e\<close> as an index, and \<^verbatim>\<open>(int)(e + k)\<close>.\<close>

definition e_ptr :: "cstate \<Rightarrow> nat" where
  "e_ptr s = length (e s) - 1"

definition e_plus :: "cstate \<Rightarrow> nat \<Rightarrow> cell" where
  "e_plus s k = ebase s + sizeof_int * of_nat (e_ptr s + k)"

text \<open>\<^verbatim>\<open>*e\<close>, \<^verbatim>\<open>*e = x\<close>, \<^verbatim>\<open>--e\<close>, \<^verbatim>\<open>++e\<close> (onto a fresh cell, which reads as zero) and \<^verbatim>\<open>*d = x\<close>.\<close>

definition e_last :: "cstate \<Rightarrow> cell" where
  "e_last s = cell_at (e s) (e_ptr s)"

definition set_last :: "cell \<Rightarrow> cstate \<Rightarrow> cstate" where
  "set_last x s = s\<lparr>e := (e s)[e_ptr s := x]\<rparr>"

definition e_dec :: "cstate \<Rightarrow> cstate" where
  "e_dec s = s\<lparr>e := butlast (e s)\<rparr>"

definition e_inc :: "cstate \<Rightarrow> cstate" where
  "e_inc s = s\<lparr>e := e s @ [0]\<rparr>"

definition patch :: "nat \<Rightarrow> cell \<Rightarrow> cstate \<Rightarrow> cstate" where
  "patch d x s = s\<lparr>e := (e s)[d := x]\<rparr>"

text \<open>\<^verbatim>\<open>d[Field]\<close> for a pointer \<open>d\<close> into the symbol table, and \<^verbatim>\<open>id[Field] = ...\<close>.\<close>

definition rec_at :: "cstate \<Rightarrow> nat \<Rightarrow> symrec" where
  "rec_at s d = sym_at (sym s) d"

definition id_upd :: "(symrec \<Rightarrow> symrec) \<Rightarrow> cstate \<Rightarrow> cstate" where
  "id_upd f s = s\<lparr>sym := sym_upd (id' s) f (sym s)\<rparr>"

subsection \<open>The expression parser: \<^verbatim>\<open>expr(lev)\<close>\<close>

text \<open>\<^verbatim>\<open>while (tk == '"') next();\<close> (line 245)\<close>

fun skip_strings :: "nat \<Rightarrow> cstate \<Rightarrow> cstate res" where
  "skip_strings 0 s = OutOfFuel"
| "skip_strings (Suc n) s = (if tk s = 34 then skip_strings n (next' s) else Cont s)"

text \<open>\<^verbatim>\<open>while (tk == Mul) { next(); t = t + PTR; }\<close> (lines 279, 529, 542, 560)\<close>

fun stars :: "nat \<Rightarrow> cell \<Rightarrow> cstate \<Rightarrow> (cell \<times> cstate) res" where
  "stars 0 t s = OutOfFuel"
| "stars (Suc n) t s = (if tk s = Mul then stars n (t + PTR) (next' s) else Cont (t, s))"

text \<open>
  Lines 320-326: the code of a prefix \<^verbatim>\<open>++\<close> or \<^verbatim>\<open>--\<close> once its operand has been
  compiled; \<open>t\<close> is the operator token.
\<close>

definition pre_incdec :: "cell \<Rightarrow> cstate \<Rightarrow> cstate res" where
  "pre_incdec t s =
     andthen
       (if e_last s = LC then Cont (emits [LC] (set_last PSH s))
        else if e_last s = LI then Cont (emits [LI] (set_last PSH s))
        else fail ''%d: bad lvalue in pre-increment\<newline>'' s)
       (\<lambda>s. Cont (emits [PSH, IMM, if PTR <s ty s then sizeof_int else sizeof_char,
                           if t = Inc then ADD else SUB,
                           if ty s = CHAR' then SC else SI] s))"

text \<open>Lines 375-382: a postfix \<^verbatim>\<open>++\<close> or \<^verbatim>\<open>--\<close>, the operator being the current token.\<close>

definition post_incdec :: "cstate \<Rightarrow> cstate res" where
  "post_incdec s =
     andthen
       (if e_last s = LC then Cont (emits [LC] (set_last PSH s))
        else if e_last s = LI then Cont (emits [LI] (set_last PSH s))
        else fail ''%d: bad lvalue in post-increment\<newline>'' s)
       (\<lambda>s. Cont (next' (emits
          [PSH, IMM, if PTR <s ty s then sizeof_int else sizeof_char,
           if tk s = Inc then ADD else SUB,
           PSH, IMM, if PTR <s ty s then sizeof_int else sizeof_char,
           if tk s = Inc then SUB else ADD] s)))"

text \<open>
  Lines 367-369: the code of an infix \<^verbatim>\<open>-\<close> once both operands have been compiled;
  \<open>t\<close> is the type of the left operand, \<^verbatim>\<open>ty\<close> that of the right one.
\<close>

definition sub_emit :: "cell \<Rightarrow> cstate \<Rightarrow> cstate" where
  "sub_emit t s =
     (if PTR <s t \<and> t = ty s then (emits [SUB, PSH, IMM, sizeof_int, DIV] s)\<lparr>ty := INT'\<rparr>
      else if PTR <s t then emits [PSH, IMM, sizeof_int, MUL, SUB] (s\<lparr>ty := t\<rparr>)
      else emits [SUB] (s\<lparr>ty := t\<rparr>))"

text \<open>Lines 261-265: the call itself, \<open>d\<close> the callee and \<open>t\<close> the number of arguments.\<close>

definition call_emit :: "nat \<Rightarrow> cell \<Rightarrow> cstate \<Rightarrow> cstate res" where
  "call_emit d t s =
     andthen
       (if Class (rec_at s d) = Sys then Cont (emits [Val (rec_at s d)] s)
        else if Class (rec_at s d) = Fun then Cont (emits [JSR, Val (rec_at s d)] s)
        else fail ''%d: bad function call\<newline>'' s)
       (\<lambda>s. let s1 = (if t \<noteq> 0 then emits [ADJ, t] s else s)
            in Cont (s1\<lparr>ty := Type (rec_at s1 d)\<rparr>))"

text \<open>Lines 267-273: an identifier \<open>d\<close> that is not called.\<close>

definition var_emit :: "nat \<Rightarrow> cstate \<Rightarrow> cstate res" where
  "var_emit d s =
     (if Class (rec_at s d) = Num then Cont ((emits [IMM, Val (rec_at s d)] s)\<lparr>ty := INT'\<rparr>)
      else
        andthen
          (if Class (rec_at s d) = Loc then Cont (emits [LEA, loc s - Val (rec_at s d)] s)
           else if Class (rec_at s d) = Glo then Cont (emits [IMM, Val (rec_at s d)] s)
           else fail ''%d: undefined variable\<newline>'' s)
          (\<lambda>s. let s1 = s\<lparr>ty := Type (rec_at s d)\<rparr>
               in Cont (emits [if ty s1 = CHAR' then LC else LI] s1)))"

text \<open>
  \<^verbatim>\<open>void expr(int lev)\<close> (lines 233-394) in three parts. \<open>expr_prefix\<close> is the chain
  of lines 237-328 and \<open>infix_step\<close> one pass through the body of the loop
  \<^verbatim>\<open>while (tk >= lev)\<close> of lines 330-393; both take the recursive calls they make as
  arguments: \<open>ex\<close> for \<^verbatim>\<open>expr\<close>, \<open>ca\<close> for the argument loop of lines 254-259.
\<close>

definition expr_prefix :: "nat \<Rightarrow> (cell \<Rightarrow> cstate \<Rightarrow> cstate res)
    \<Rightarrow> (cell \<Rightarrow> cstate \<Rightarrow> (cell \<times> cstate) res) \<Rightarrow> cstate \<Rightarrow> cstate res" where
  "expr_prefix n ex ca s =
     (if tk s = 0 then fail ''%d: unexpected eof in expression\<newline>'' s
      else if tk s = Num then Cont (next' (emits [IMM, ival s] s))
      else if tk s = 34 then
        andthen (skip_strings n (next' (emits [IMM, ival s] s)))
          (\<lambda>s. Cont (s\<lparr>data := and (data s + sizeof_int) (- sizeof_int)\<rparr>))
      else if tk s = Id' then
        (let d = id' s; s = next' s in
         if tk s = 40 then
           andthen (ca 0 (next' s)) (\<lambda>(t, s). call_emit d t (next' s))
         else var_emit d s)
      else if tk s = 40 then
        (let s = next' s in
         if tk s = Int' \<or> tk s = Char' then
           andthen (stars n (if tk s = Int' then INT' else CHAR') (next' s)) (\<lambda>(t, s).
           andthen (expect 41 ''%d: bad cast\<newline>'' s) (\<lambda>s.
           andthen (ex Inc s) (\<lambda>s. Cont (s\<lparr>ty := t\<rparr>))))
         else
           andthen (ex Assign s) (expect 41 ''%d: close paren expected\<newline>''))
      else if tk s = Mul then
        andthen (ex Inc (next' s)) (\<lambda>s.
          if INT' <s ty s
          then (let s = s\<lparr>ty := ty s - PTR\<rparr> in Cont (emits [if ty s = CHAR' then LC else LI] s))
          else fail ''%d: bad dereference\<newline>'' s)
      else if tk s = And then
        andthen (ex Inc (next' s)) (\<lambda>s.
          if e_last s = LC \<or> e_last s = LI then Cont ((e_dec s)\<lparr>ty := ty s + PTR\<rparr>)
          else fail ''%d: bad address-of\<newline>'' s)
      else if tk s = 33 then
        andthen (ex Inc (next' s)) (\<lambda>s. Cont ((emits [PSH, IMM, 0, EQ] s)\<lparr>ty := INT'\<rparr>))
      else if tk s = 126 then
        andthen (ex Inc (next' s)) (\<lambda>s. Cont ((emits [PSH, IMM, - 1, XOR] s)\<lparr>ty := INT'\<rparr>))
      else if tk s = Add then
        andthen (ex Inc (next' s)) (\<lambda>s. Cont (s\<lparr>ty := INT'\<rparr>))
      else if tk s = Sub then
        (let s = emits [IMM] (next' s) in
         andthen
           (if tk s = Num then Cont (next' (emits [- ival s] s))
            else andthen (ex Inc (emits [- 1, PSH] s)) (\<lambda>s. Cont (emits [MUL] s)))
           (\<lambda>s. Cont (s\<lparr>ty := INT'\<rparr>)))
      else if tk s = Inc \<or> tk s = Dec then
        (let t = tk s in andthen (ex Inc (next' s)) (pre_incdec t))
      else fail ''%d: bad expression\<newline>'' s)"

definition infix_step :: "(cell \<Rightarrow> cstate \<Rightarrow> cstate res) \<Rightarrow> cstate \<Rightarrow> cstate res" where
  "infix_step ex s =
      (let t = ty s in
        (if tk s = Assign then
           (let s = next' s in
            andthen
              (if e_last s = LC \<or> e_last s = LI then Cont (set_last PSH s)
               else fail ''%d: bad lvalue in assignment\<newline>'' s)
              (\<lambda>s. andthen (ex Assign s) (\<lambda>s.
                 let s = s\<lparr>ty := t\<rparr> in Cont (emits [if ty s = CHAR' then SC else SI] s))))
         else if tk s = Cond then
           (let s = e_inc (emits [BZ] (next' s)); d = e_ptr s in
            andthen (ex Assign s) (\<lambda>s.
            andthen (expect 58 ''%d: conditional missing colon\<newline>'' s) (\<lambda>s.
              let s = patch d (e_plus s 3) s; s = e_inc (emits [JMP] s); d = e_ptr s in
              andthen (ex Cond s) (\<lambda>s. Cont (patch d (e_plus s 1) s)))))
         else if tk s = Lor then
           (let s = e_inc (emits [BNZ] (next' s)); d = e_ptr s in
            andthen (ex Lan s) (\<lambda>s. Cont ((patch d (e_plus s 1) s)\<lparr>ty := INT'\<rparr>)))
         else if tk s = Lan then
           (let s = e_inc (emits [BZ] (next' s)); d = e_ptr s in
            andthen (ex Or s) (\<lambda>s. Cont ((patch d (e_plus s 1) s)\<lparr>ty := INT'\<rparr>)))
         else if tk s = Or then
           andthen (ex Xor (emits [PSH] (next' s))) (\<lambda>s. Cont ((emits [OR] s)\<lparr>ty := INT'\<rparr>))
         else if tk s = Xor then
           andthen (ex And (emits [PSH] (next' s))) (\<lambda>s. Cont ((emits [XOR] s)\<lparr>ty := INT'\<rparr>))
         else if tk s = And then
           andthen (ex Eq (emits [PSH] (next' s))) (\<lambda>s. Cont ((emits [AND] s)\<lparr>ty := INT'\<rparr>))
         else if tk s = Eq then
           andthen (ex Lt (emits [PSH] (next' s))) (\<lambda>s. Cont ((emits [EQ] s)\<lparr>ty := INT'\<rparr>))
         else if tk s = Ne then
           andthen (ex Lt (emits [PSH] (next' s))) (\<lambda>s. Cont ((emits [NE] s)\<lparr>ty := INT'\<rparr>))
         else if tk s = Lt then
           andthen (ex Shl (emits [PSH] (next' s))) (\<lambda>s. Cont ((emits [LT] s)\<lparr>ty := INT'\<rparr>))
         else if tk s = Gt then
           andthen (ex Shl (emits [PSH] (next' s))) (\<lambda>s. Cont ((emits [GT] s)\<lparr>ty := INT'\<rparr>))
         else if tk s = Le then
           andthen (ex Shl (emits [PSH] (next' s))) (\<lambda>s. Cont ((emits [LE] s)\<lparr>ty := INT'\<rparr>))
         else if tk s = Ge then
           andthen (ex Shl (emits [PSH] (next' s))) (\<lambda>s. Cont ((emits [GE] s)\<lparr>ty := INT'\<rparr>))
         else if tk s = Shl then
           andthen (ex Add (emits [PSH] (next' s))) (\<lambda>s. Cont ((emits [SHL] s)\<lparr>ty := INT'\<rparr>))
         else if tk s = Shr then
           andthen (ex Add (emits [PSH] (next' s))) (\<lambda>s. Cont ((emits [SHR] s)\<lparr>ty := INT'\<rparr>))
         else if tk s = Add then
           andthen (ex Mul (emits [PSH] (next' s))) (\<lambda>s.
             let s = s\<lparr>ty := t\<rparr>;
                 s = (if PTR <s ty s then emits [PSH, IMM, sizeof_int, MUL] s else s)
             in Cont (emits [ADD] s))
         else if tk s = Sub then
           andthen (ex Mul (emits [PSH] (next' s))) (\<lambda>s. Cont (sub_emit t s))
         else if tk s = Mul then
           andthen (ex Inc (emits [PSH] (next' s))) (\<lambda>s. Cont ((emits [MUL] s)\<lparr>ty := INT'\<rparr>))
         else if tk s = Div then
           andthen (ex Inc (emits [PSH] (next' s))) (\<lambda>s. Cont ((emits [DIV] s)\<lparr>ty := INT'\<rparr>))
         else if tk s = Mod then
           andthen (ex Inc (emits [PSH] (next' s))) (\<lambda>s. Cont ((emits [MOD] s)\<lparr>ty := INT'\<rparr>))
         else if tk s = Inc \<or> tk s = Dec then post_incdec s
         else if tk s = Brak then
           andthen (ex Assign (emits [PSH] (next' s))) (\<lambda>s.
           andthen (expect 93 ''%d: close bracket expected\<newline>'' s) (\<lambda>s.
           andthen
             (if PTR <s t then Cont (emits [PSH, IMM, sizeof_int, MUL] s)
              else if t <s PTR then fail ''%d: pointer type expected\<newline>'' s
              else Cont s)
             (\<lambda>s. let s = emits [ADD] s; s = s\<lparr>ty := t - PTR\<rparr>
                  in Cont (emits [if ty s = CHAR' then LC else LI] s))))
         else Exit (printf ''%d: compiler error tk=%d\<newline>'' [I (line s), I (tk s)] s)))"

text \<open>
  The recursion, with fuel: \<open>expr\<close> is \<^verbatim>\<open>expr\<close>, \<open>call_args\<close> the loop
  \<^verbatim>\<open>while (tk != ')') { expr(Assign); *++e = PSH; ++t; if (tk == ',') next(); }\<close> and
  \<open>infix_loop\<close> the loop \<^verbatim>\<open>while (tk >= lev)\<close>.
\<close>

fun expr :: "nat \<Rightarrow> cell \<Rightarrow> cstate \<Rightarrow> cstate res"
  and call_args :: "nat \<Rightarrow> cell \<Rightarrow> cstate \<Rightarrow> (cell \<times> cstate) res"
  and infix_loop :: "nat \<Rightarrow> cell \<Rightarrow> cstate \<Rightarrow> cstate res" where
  "expr 0 lev s = OutOfFuel"
| "expr (Suc n) lev s =
     andthen (expr_prefix n (\<lambda>l s'. expr n l s') (\<lambda>t s'. call_args n t s') s) (infix_loop n lev)"
| "call_args 0 t s = OutOfFuel"
| "call_args (Suc n) t s =
    (if tk s \<noteq> 41 then
       andthen (expr n Assign s) (\<lambda>s.
         let s = emits [PSH] s in
         call_args n (t + 1) (if tk s = 44 then next' s else s))
     else Cont (t, s))"
| "infix_loop 0 lev s = OutOfFuel"
| "infix_loop (Suc n) lev s =
    (if lev <=s tk s then andthen (infix_step (\<lambda>l s'. expr n l s') s) (infix_loop n lev)
     else Cont s)"

subsection \<open>The statement parser: \<^verbatim>\<open>stmt()\<close>\<close>

text \<open>
  The body of \<^verbatim>\<open>void stmt()\<close> (lines 398-445); \<open>st\<close> stands for the recursive call
  \<^verbatim>\<open>stmt()\<close>, \<open>bl\<close> for the loop \<^verbatim>\<open>while (tk != '}') stmt();\<close> of a block and \<open>ex\<close> for
  \<^verbatim>\<open>expr\<close>. The locals \<^verbatim>\<open>a\<close> and \<^verbatim>\<open>b\<close> are text addresses.
\<close>

definition stmt_body :: "(cstate \<Rightarrow> cstate res) \<Rightarrow> (cstate \<Rightarrow> cstate res)
    \<Rightarrow> (cell \<Rightarrow> cstate \<Rightarrow> cstate res) \<Rightarrow> cstate \<Rightarrow> cstate res" where
  "stmt_body st bl ex s =
     (if tk s = If' then
        andthen (expect 40 ''%d: open paren expected\<newline>'' (next' s)) (\<lambda>s.
        andthen (ex Assign s) (\<lambda>s.
        andthen (expect 41 ''%d: close paren expected\<newline>'' s) (\<lambda>s.
          let s = e_inc (emits [BZ] s); b = e_ptr s in
          andthen (st s) (\<lambda>s.
            if tk s = Else then
              (let s = patch b (e_plus s 3) s; s = e_inc (emits [JMP] s); b = e_ptr s in
               andthen (st (next' s)) (\<lambda>s. Cont (patch b (e_plus s 1) s)))
            else Cont (patch b (e_plus s 1) s)))))
      else if tk s = While then
        (let s = next' s; a = e_plus s 1 in
         andthen (expect 40 ''%d: open paren expected\<newline>'' s) (\<lambda>s.
         andthen (ex Assign s) (\<lambda>s.
         andthen (expect 41 ''%d: close paren expected\<newline>'' s) (\<lambda>s.
           let s = e_inc (emits [BZ] s); b = e_ptr s in
           andthen (st s) (\<lambda>s.
             let s = emits [JMP, a] s in Cont (patch b (e_plus s 1) s))))))
      else if tk s = Return then
        (let s = next' s in
         andthen (if tk s \<noteq> 59 then ex Assign s else Cont s) (\<lambda>s.
           expect 59 ''%d: semicolon expected\<newline>'' (emits [LEV] s)))
      else if tk s = 123 then
        andthen (bl (next' s)) (\<lambda>s. Cont (next' s))
      else if tk s = 59 then Cont (next' s)
      else
        andthen (ex Assign s) (expect 59 ''%d: semicolon expected\<newline>''))"

fun stmt :: "nat \<Rightarrow> cstate \<Rightarrow> cstate res"
  and block :: "nat \<Rightarrow> cstate \<Rightarrow> cstate res" where
  "stmt 0 s = OutOfFuel"
| "stmt (Suc n) s = stmt_body (\<lambda>s'. stmt n s') (\<lambda>s'. block n s') (expr n) s"
| "block 0 s = OutOfFuel"
| "block (Suc n) s = (if tk s \<noteq> 125 then andthen (stmt n s) (block n) else Cont s)"

subsection \<open>The declaration parser of \<^verbatim>\<open>main\<close>\<close>

text \<open>\<^verbatim>\<open>{ printf(msg, line); return -1; }\<close> in \<^verbatim>\<open>main\<close> ends the process like \<^verbatim>\<open>exit(-1)\<close>.\<close>

text \<open>
  The enumerator loop of lines 510-521, \<open>i\<close> the next value.
\<close>

fun enum_loop :: "nat \<Rightarrow> cell \<Rightarrow> cstate \<Rightarrow> cstate res" where
  "enum_loop 0 i s = OutOfFuel"
| "enum_loop (Suc n) i s =
    (if tk s \<noteq> 125 then
       (if tk s \<noteq> Id' then Exit (printf ''%d: bad enum identifier %d\<newline>'' [I (line s), I (tk s)] s)
        else
          (let s = next' s in
           andthen
             (if tk s = Assign then
                (let s = next' s in
                 if tk s \<noteq> Num then fail ''%d: bad enum initializer\<newline>'' s
                 else Cont (ival s, next' s))
              else Cont (i, s))
             (\<lambda>(i, s).
                let s = id_upd (\<lambda>r. r\<lparr>Class := Num, Type := INT', Val := i\<rparr>) s
                in enum_loop n (i + 1) (if tk s = 44 then next' s else s))))
     else Cont s)"

text \<open>
  Lines 545-547 and 563-565: the current identifier becomes a local of type \<open>t\<close> at
  index \<open>v\<close>, its previous class, type and value saved in the record.
\<close>

definition shadow :: "cell \<Rightarrow> cell \<Rightarrow> symrec \<Rightarrow> symrec" where
  "shadow t v r = r\<lparr>HClass := Class r, Class := Loc, HType := Type r, Type := t,
                    HVal := Val r, Val := v\<rparr>"

text \<open>The parameter loop of lines 538-550, \<open>i\<close> the index of the next parameter.\<close>

fun params :: "nat \<Rightarrow> cell \<Rightarrow> cstate \<Rightarrow> (cell \<times> cstate) res" where
  "params 0 i s = OutOfFuel"
| "params (Suc n) i s =
    (if tk s \<noteq> 41 then
       (let ts = (if tk s = Int' then (INT', next' s)
                  else if tk s = Char' then (CHAR', next' s)
                  else (INT', s))
        in andthen (stars n (fst ts) (snd ts)) (\<lambda>(t, s).
             if tk s \<noteq> Id' then fail ''%d: bad parameter declaration\<newline>'' s
             else if Class (rec_at s (id' s)) = Loc
               then fail ''%d: duplicate parameter definition\<newline>'' s
             else
               (let s = next' (id_upd (shadow t i) s)
                in params n (i + 1) (if tk s = 44 then next' s else s))))
     else Cont (i, s))"

text \<open>
  The declarator loop \<^verbatim>\<open>while (tk != ';')\<close> of lines 558-568 for one local declaration
  of base type \<open>bt\<close>; \<open>i\<close> is the index of the last local.
\<close>

fun local_decl :: "nat \<Rightarrow> cell \<Rightarrow> cell \<Rightarrow> cstate \<Rightarrow> (cell \<times> cstate) res" where
  "local_decl 0 bt i s = OutOfFuel"
| "local_decl (Suc n) bt i s =
    (if tk s \<noteq> 59 then
       andthen (stars n bt s) (\<lambda>(t, s).
         if tk s \<noteq> Id' then fail ''%d: bad local declaration\<newline>'' s
         else if Class (rec_at s (id' s)) = Loc
           then fail ''%d: duplicate local definition\<newline>'' s
         else
           (let s = next' (id_upd (shadow t (i + 1)) s)
            in local_decl n bt (i + 1) (if tk s = 44 then next' s else s)))
     else Cont (i, s))"

text \<open>
  The loop \<^verbatim>\<open>while (tk == Int || tk == Char)\<close> of lines 555-570; returns \<^verbatim>\<open>bt\<close>, \<^verbatim>\<open>i\<close>
  and the state.
\<close>

fun locals :: "nat \<Rightarrow> cell \<Rightarrow> cell \<Rightarrow> cstate \<Rightarrow> (cell \<times> cell \<times> cstate) res" where
  "locals 0 bt i s = OutOfFuel"
| "locals (Suc n) bt i s =
    (if tk s = Int' \<or> tk s = Char' then
       (let bt = (if tk s = Int' then INT' else CHAR') in
        andthen (local_decl n bt i (next' s)) (\<lambda>(i, s). locals n bt i (next' s)))
     else Cont (bt, i, s))"

text \<open>
  The walk of lines 574-582 over the records of the table, up to the first record whose
  \<open>Tk\<close> is zero: a record of class \<open>Loc\<close> gets its saved class, type and value back.
\<close>

definition restore :: "symrec \<Rightarrow> symrec" where
  "restore r = r\<lparr>Class := HClass r, Type := HType r, Val := HVal r\<rparr>"

fun unwind_walk :: "symrec list \<Rightarrow> symrec list" where
  "unwind_walk [] = []"
| "unwind_walk (r # rs) =
     (if Tk r \<noteq> 0 then (if Class r = Loc then restore r else r) # unwind_walk rs
      else r # rs)"

definition unwind :: "cstate \<Rightarrow> cstate" where
  "unwind s = s\<lparr>sym := unwind_walk (sym s),
                 id' := length (takeWhile (\<lambda>r. Tk r \<noteq> 0) (sym s))\<rparr>"

text \<open>
  Lines 535-582: a function definition, entered on the \<^verbatim>\<open>(\<close> behind the name with
  \<^verbatim>\<open>id[Type]\<close> set. Returns \<^verbatim>\<open>bt\<close> (which the local declarations assign) and the state.
\<close>

definition function_def :: "nat \<Rightarrow> cell \<Rightarrow> cstate \<Rightarrow> (cell \<times> cstate) res" where
  "function_def n bt s =
     (let s = id_upd (\<lambda>r. r\<lparr>Class := Fun, Val := e_plus s 1\<rparr>) s in
      andthen (params n 0 (next' s)) (\<lambda>(i, s).
        let s = next' s in
        if tk s \<noteq> 123 then fail ''%d: bad function definition\<newline>'' s
        else
          (let i = i + 1; s = s\<lparr>loc := i\<rparr> in
           andthen (locals n bt i (next' s)) (\<lambda>(bt, i, s).
           andthen (block n (emits [ENT, i - loc s] s)) (\<lambda>s.
             Cont (bt, unwind (emits [LEV] s)))))))"

text \<open>The declarator loop \<^verbatim>\<open>while (tk != ';' && tk != '}')\<close> of lines 527-590.\<close>

fun declarators :: "nat \<Rightarrow> cell \<Rightarrow> cstate \<Rightarrow> cstate res" where
  "declarators 0 bt s = OutOfFuel"
| "declarators (Suc n) bt s =
    (if tk s \<noteq> 59 \<and> tk s \<noteq> 125 then
       andthen (stars n bt s) (\<lambda>(t, s).
         if tk s \<noteq> Id' then fail ''%d: bad global declaration\<newline>'' s
         else if Class (rec_at s (id' s)) \<noteq> 0 then fail ''%d: duplicate global definition\<newline>'' s
         else
           (let s = next' s; s = id_upd (\<lambda>r. r\<lparr>Type := t\<rparr>) s in
            andthen
              (if tk s = 40 then function_def n bt s
               else Cont (bt, (id_upd (\<lambda>r. r\<lparr>Class := Glo, Val := data s\<rparr>) s)
                                \<lparr>data := data s + sizeof_int\<rparr>))
              (\<lambda>(bt, s). declarators n bt (if tk s = 44 then next' s else s))))
     else Cont s)"

text \<open>Lines 501-524: the base type of one declaration, with the \<^verbatim>\<open>enum\<close> case.\<close>

definition base_type :: "nat \<Rightarrow> cstate \<Rightarrow> (cell \<times> cstate) res" where
  "base_type n s =
     (if tk s = Int' then Cont (INT', next' s)
      else if tk s = Char' then Cont (CHAR', next' s)
      else if tk s = Enum then
        (let s = next' s; s = (if tk s \<noteq> 123 then next' s else s) in
         if tk s = 123 then
           andthen (enum_loop n 0 (next' s)) (\<lambda>s. Cont (INT', next' s))
         else Cont (INT', s))
      else Cont (INT', s))"

text \<open>The loop \<^verbatim>\<open>while (tk)\<close> of lines 500-592.\<close>

fun declarations :: "nat \<Rightarrow> cstate \<Rightarrow> cstate res" where
  "declarations 0 s = OutOfFuel"
| "declarations (Suc n) s =
    (if tk s \<noteq> 0 then
       andthen (base_type n s) (\<lambda>(bt, s).
       andthen (declarators n bt s) (\<lambda>s. declarations n (next' s)))
     else Cont s)"

subsection \<open>\<^verbatim>\<open>main\<close>: arguments, pools, seeding and reading the source\<close>

definition poolsz :: cell where
  "poolsz = 256 * 1024"

text \<open>
  What the host does for \<^verbatim>\<open>main\<close> before the virtual machine starts: the results of
  the five calls of \<^verbatim>\<open>malloc\<close> (0 is \<^verbatim>\<open>NULL\<close>), the result of the call of \<^verbatim>\<open>read\<close> with the
  bytes it stores, the address of \<^verbatim>\<open>argv\<close> and the memory as it is when \<^verbatim>\<open>main\<close> starts.
\<close>

record env =
  m_sym :: cell
  m_text :: cell
  m_data :: cell
  m_stack :: cell
  m_source :: cell
  rd_ret :: cell
  rd_bytes :: string
  argv_ptr :: cell
  mem0 :: "cell \<Rightarrow> 8 word"

text \<open>
  A file descriptor passed to the host: the value of an integer expression, or the value
  of a local variable that has never been assigned.
\<close>

datatype fdval = Indeterminate | Fd cell

text \<open>The calls to the host, with their arguments.\<close>

datatype sysev = Malloc cell | Open cell cell | Read fdval cell | Close fdval | Free cell

text \<open>\<^verbatim>\<open>**argv == '-' && (*argv)[1] == c\<close>\<close>

definition is_flag :: "cell \<Rightarrow> string \<Rightarrow> bool" where
  "is_flag c a \<longleftrightarrow> peek a = 45 \<and> peek (tl a) = c"

text \<open>
  Lines 455-457; \<open>argv\<close> is the whole argument vector, the name of the program first.
  Returns \<^verbatim>\<open>src\<close>, \<^verbatim>\<open>debug\<close> and the arguments left.
\<close>

definition parse_flags :: "string list \<Rightarrow> cell \<times> cell \<times> string list" where
  "parse_flags argv =
     (let av = tl argv;
          r1 = (if av \<noteq> [] \<and> is_flag 115 (hd av) then (1, tl av) else (0, av));
          r2 = (if snd r1 \<noteq> [] \<and> is_flag 100 (hd (snd r1)) then (1, tl (snd r1)) else (0, snd r1))
      in (fst r1, fst r2, snd r2))"

text \<open>The string of line 472-473.\<close>

definition keyword_text :: string where
  "keyword_text = ''char else enum if int return sizeof while '' @
              ''open read close printf malloc free memset memcmp exit void main''"

text \<open>
  The state after the pools have been allocated and zeroed and \<^verbatim>\<open>p\<close> set to the keywords
  (lines 461-473). Globals not assigned yet are zero.
\<close>

definition init_state :: "env \<Rightarrow> cell \<Rightarrow> cell \<Rightarrow> cstate" where
  "init_state en sf df =
     \<lparr>p = keyword_text, lp = [], data = m_data en, ebase = m_text en, e = [0], le = 0, id' = 0,
      sym = [], tk = 0, ival = 0, ty = 0, loc = 0, line = 0, src = sf, debug = df,
      mem = (\<lambda>x. if x - m_data en < poolsz then 0 else mem0 en x), out = []\<rparr>"

text \<open>Lines 476-489; returns the state and \<^verbatim>\<open>idmain\<close>.\<close>

definition seed_keyword :: "cstate \<Rightarrow> cell \<Rightarrow> cstate" where
  "seed_keyword s i = id_upd (\<lambda>r. r\<lparr>Tk := i\<rparr>) (next' s)"

definition seed_syscall :: "cstate \<Rightarrow> cell \<Rightarrow> cstate" where
  "seed_syscall s i = id_upd (\<lambda>r. r\<lparr>Class := Sys, Type := INT', Val := i\<rparr>) (next' s)"

definition seed :: "cstate \<Rightarrow> cstate \<times> nat" where
  "seed s =
     (let s1 = foldl seed_keyword s [Char', Else, Enum, If', Int', Return, Sizeof, While];
          s2 = foldl seed_syscall s1 [OPEN, READ, CLOS, PRTF, MALC, FREE, MSET, MCMP, EXIT];
          s3 = id_upd (\<lambda>r. r\<lparr>Tk := Char'\<rparr>) (next' s2);
          s4 = next' s3
      in (s4, id' s4))"

text \<open>
  Lines 455-495, up to the start of parsing. \<open>Loaded\<close>: the state with the source in
  \<^verbatim>\<open>p\<close>, \<^verbatim>\<open>idmain\<close>, the arguments left and the calls made to the host. \<open>Refused\<close>: \<^verbatim>\<open>main\<close>
  has returned \<open>-1\<close> with this output, after these calls. The local \<^verbatim>\<open>fd\<close> is declared
  in line 450 and not assigned anywhere.
\<close>

datatype loaded = Loaded cstate nat "string list" "sysev list" | Refused "out_ev list" "sysev list"

definition load :: "env \<Rightarrow> string list \<Rightarrow> loaded" where
  "load en argv =
    (let fd = Indeterminate;
         fl = parse_flags argv; sf = fst fl; df = fst (snd fl); av = snd (snd fl) in
     if av = [] then Refused [Printf ''usage: c4 [-s] [-d] file ...\<newline>'' []] []
     else if m_sym en = 0
       then Refused [Printf ''could not malloc(%d) symbol area\<newline>'' [I poolsz]] [Malloc poolsz]
     else if m_text en = 0
       then Refused [Printf ''could not malloc(%d) text area\<newline>'' [I poolsz]]
              [Malloc poolsz, Malloc poolsz]
     else if m_data en = 0
       then Refused [Printf ''could not malloc(%d) data area\<newline>'' [I poolsz]]
              [Malloc poolsz, Malloc poolsz, Malloc poolsz]
     else if m_stack en = 0
       then Refused [Printf ''could not malloc(%d) stack area\<newline>'' [I poolsz]]
              [Malloc poolsz, Malloc poolsz, Malloc poolsz, Malloc poolsz]
     else
       (let sd = seed (init_state en sf df); s = fst sd; idmain = snd sd;
            ms = [Malloc poolsz, Malloc poolsz, Malloc poolsz, Malloc poolsz, Malloc poolsz] in
        if m_source en = 0
          then Refused (out s @ [Printf ''could not malloc(%d) source area\<newline>'' [I poolsz]]) ms
        else if rd_ret en <=s 0
          then Refused (out s @ [Printf ''read() returned %d\<newline>'' [I (rd_ret en)]])
                 (ms @ [Read fd (poolsz - 1)])
        else
          (let text = take (unat (rd_ret en)) (rd_bytes en)
           in Loaded (s\<lparr>p := text, lp := text\<rparr>) idmain av
                (ms @ [Read fd (poolsz - 1), Close fd]))))"

subsection \<open>The virtual machine\<close>

text \<open>
  Memory is one array of bytes by address: the text pool, the data pool and the stack all
  lie in it (the word pushed below \<^verbatim>\<open>main\<close>'s frame makes the machine fetch its last two
  instructions from the stack). An \<^verbatim>\<open>int\<close> is eight bytes, least significant first.
\<close>

type_synonym memory = "cell \<Rightarrow> 8 word"

definition rd64 :: "memory \<Rightarrow> cell \<Rightarrow> cell" where
  "rd64 m x =
     or (ucast (m x)) (or (push_bit 8 (ucast (m (x + 1)))) (or (push_bit 16 (ucast (m (x + 2))))
       (or (push_bit 24 (ucast (m (x + 3)))) (or (push_bit 32 (ucast (m (x + 4))))
         (or (push_bit 40 (ucast (m (x + 5)))) (or (push_bit 48 (ucast (m (x + 6))))
           (push_bit 56 (ucast (m (x + 7))))))))))"

definition wr64 :: "memory \<Rightarrow> cell \<Rightarrow> cell \<Rightarrow> memory" where
  "wr64 m x v = (\<lambda>y. if y - x < 8 then ucast (drop_bit (8 * unat (y - x)) v) else m y)"

text \<open>The string at an address, up to its NUL; strings longer than a pool are cut off.\<close>

fun cstr :: "nat \<Rightarrow> memory \<Rightarrow> cell \<Rightarrow> string" where
  "cstr 0 m x = []"
| "cstr (Suc n) m x = (if m x = 0 then [] else char_of (unat (m x)) # cstr n m (x + 1))"

definition string_at :: "memory \<Rightarrow> cell \<Rightarrow> string" where
  "string_at m x = cstr (unat poolsz) m x"

text \<open>
  The text pool of the compiler as bytes of memory: the byte at address \<open>x\<close> inside the
  pool.
\<close>

definition image :: "cstate \<Rightarrow> memory" where
  "image s = (\<lambda>x. if x - ebase s < sizeof_int * of_nat (length (e s))
                   then ucast (drop_bit (8 * unat (and (x - ebase s) 7))
                                 (cell_at (e s) (unat (drop_bit 3 (x - ebase s)))))
                   else mem s x)"

text \<open>
  C's \<^verbatim>\<open>printf\<close>, for the conversions \<^verbatim>\<open>%d\<close>, \<^verbatim>\<open>%c\<close>, \<^verbatim>\<open>%s\<close> and \<^verbatim>\<open>%%\<close>: the text printed, or
  \<open>None\<close> where the behaviour is undefined (a conversion without an argument) or the
  conversion is not one of these. Arguments are machine words as the machine passes them;
  \<^verbatim>\<open>%d\<close> prints the low 32 bits as a signed \<^verbatim>\<open>int\<close>.
\<close>

fun show_nat :: "nat \<Rightarrow> string" where
  "show_nat n = (if n < 10 then [char_of (48 + n)]
                 else show_nat (n div 10) @ [char_of (48 + n mod 10)])"

declare show_nat.simps [simp del]

definition show_int :: "int \<Rightarrow> string" where
  "show_int i = (if i < 0 then CHR ''-'' # show_nat (nat (- i)) else show_nat (nat i))"

definition conv :: "memory \<Rightarrow> char \<Rightarrow> cell \<Rightarrow> string" where
  "conv m d x =
     (if d = CHR ''d'' then show_int (sint (ucast x :: 32 word))
      else if d = CHR ''c'' then [char_of (unat x)]
      else string_at m x)"

fun c_printf :: "memory \<Rightarrow> string \<Rightarrow> cell list \<Rightarrow> string option" where
  "c_printf m [] xs = Some []"
| "c_printf m [c] xs = (if c = CHR ''%'' then None else Some [c])"
| "c_printf m (c # d # cs) xs =
     (if c \<noteq> CHR ''%'' then map_option ((#) c) (c_printf m (d # cs) xs)
      else if d = CHR ''%'' then map_option ((#) d) (c_printf m cs xs)
      else if d = CHR ''d'' \<or> d = CHR ''c'' \<or> d = CHR ''s'' then
        (case xs of [] \<Rightarrow> None
         | x # xs' \<Rightarrow> map_option ((@) (conv m d x)) (c_printf m cs xs'))
      else None)"

text \<open>
  The registers of lines 451 (\<open>ax\<close> is \<^verbatim>\<open>a\<close>), memory, the text written to standard
  output, the calls made to the host and the state of the host.
\<close>

record 'w vm =
  pc :: cell
  sp :: cell
  bp :: cell
  ax :: cell
  cycle :: cell
  vmem :: memory
  vout :: string
  vcalls :: "sysev list"
  world :: 'w

text \<open>
  The host behind \<^verbatim>\<open>open\<close>, \<^verbatim>\<open>read\<close>, \<^verbatim>\<open>close\<close>, \<^verbatim>\<open>malloc\<close> and \<^verbatim>\<open>free\<close>. \<^verbatim>\<open>read\<close> returns its
  result and the bytes it stores.
\<close>

record 'w host =
  h_open :: "string \<Rightarrow> cell \<Rightarrow> 'w \<Rightarrow> cell \<times> 'w"
  h_read :: "cell \<Rightarrow> cell \<Rightarrow> 'w \<Rightarrow> cell \<times> string \<times> 'w"
  h_close :: "cell \<Rightarrow> 'w \<Rightarrow> cell \<times> 'w"
  h_malloc :: "cell \<Rightarrow> 'w \<Rightarrow> cell \<times> 'w"
  h_free :: "cell \<Rightarrow> 'w \<Rightarrow> 'w"

text \<open>
  One turn of the loop: the machine goes on, \<^verbatim>\<open>main\<close> returns a status, or the machine
  leaves the model (a division that traps, a \<^verbatim>\<open>printf\<close> with undefined behaviour).
\<close>

datatype 'w step_res = Next "'w vm" | Halt cell "'w vm" | Trap "'w vm"

text \<open>\<^verbatim>\<open>sp[k]\<close>, \<^verbatim>\<open>*sp++\<close> and \<^verbatim>\<open>*--sp = x\<close>.\<close>

definition stk :: "'w vm \<Rightarrow> nat \<Rightarrow> cell" where
  "stk v k = rd64 (vmem v) (sp v + sizeof_int * of_nat k)"

definition pop :: "'w vm \<Rightarrow> 'w vm" where
  "pop v = v\<lparr>sp := sp v + sizeof_int\<rparr>"

definition push :: "cell \<Rightarrow> 'w vm \<Rightarrow> 'w vm" where
  "push x v = v\<lparr>sp := sp v - sizeof_int, vmem := wr64 (vmem v) (sp v - sizeof_int) x\<rparr>"

text \<open>\<^verbatim>\<open>a = *sp++ op a\<close>\<close>

definition binop :: "(cell \<Rightarrow> cell \<Rightarrow> cell) \<Rightarrow> 'w vm \<Rightarrow> 'w step_res" where
  "binop f v = Next ((pop v)\<lparr>ax := f (stk v 0) (ax v)\<rparr>)"

definition bool_cell :: "bool \<Rightarrow> cell" where
  "bool_cell b = (if b then 1 else 0)"

text \<open>C's \<^verbatim>\<open>/\<close> and \<^verbatim>\<open>%\<close> on \<^verbatim>\<open>long long\<close>: the quotient is truncated towards zero.\<close>

definition c_div :: "cell \<Rightarrow> cell \<Rightarrow> cell" where
  "c_div x y = word_of_int (sgn (sint x) * sgn (sint y) * (\<bar>sint x\<bar> div \<bar>sint y\<bar>))"

definition c_mod :: "cell \<Rightarrow> cell \<Rightarrow> cell" where
  "c_mod x y = x - c_div x y * y"

text \<open>\<^verbatim>\<open>memset\<close> and \<^verbatim>\<open>memcmp\<close> on memory.\<close>

fun memset :: "memory \<Rightarrow> cell \<Rightarrow> 8 word \<Rightarrow> nat \<Rightarrow> memory" where
  "memset m x c 0 = m"
| "memset m x c (Suc n) = memset (m(x := c)) (x + 1) c n"

fun memcmp :: "memory \<Rightarrow> cell \<Rightarrow> cell \<Rightarrow> nat \<Rightarrow> cell" where
  "memcmp m x y 0 = 0"
| "memcmp m x y (Suc n) =
     (if m x = m y then memcmp m (x + 1) (y + 1) n
      else if m x < m y then - 1 else 1)"

fun store_bytes :: "memory \<Rightarrow> cell \<Rightarrow> string \<Rightarrow> memory" where
  "store_bytes m x [] = m"
| "store_bytes m x (c # cs) = store_bytes (m(x := of_char c)) (x + 1) cs"

text \<open>The trace of lines 610-616, printed when \<^verbatim>\<open>debug\<close> is set; \<open>i\<close> is the opcode fetched.\<close>

definition trace :: "cell \<Rightarrow> 'w vm \<Rightarrow> string" where
  "trace i v =
     show_int (sint (ucast (cycle v) :: 32 word)) @ ''> '' @ take 4 (drop (unat (i * 5)) mnemonics) @
     (if has_operand i then '' '' @ show_int (sint (ucast (rd64 (vmem v) (pc v)) :: 32 word)) @ ''\<newline>''
      else ''\<newline>'')"

text \<open>
  One turn of the loop \<^verbatim>\<open>while (1)\<close> of lines 608-659. \<open>v0\<close> is the machine before the
  fetch; \<open>v\<close> has \<^verbatim>\<open>pc\<close> behind the opcode and \<^verbatim>\<open>cycle\<close> counted, so \<open>rd64 (vmem v) (pc v)\<close> is
  \<^verbatim>\<open>*pc\<close> and \<open>pc v + 8\<close> is \<^verbatim>\<open>pc + 1\<close>.
\<close>

definition step :: "'w host \<Rightarrow> cell \<Rightarrow> 'w vm \<Rightarrow> 'w step_res" where
  "step h dbg v0 =
    (let i = rd64 (vmem v0) (pc v0);
         v1 = v0\<lparr>pc := pc v0 + sizeof_int, cycle := cycle v0 + 1\<rparr>;
         v = (if dbg \<noteq> 0 then v1\<lparr>vout := vout v1 @ trace i v1\<rparr> else v1);
         opd = rd64 (vmem v) (pc v);
         skip = v\<lparr>pc := pc v + sizeof_int\<rparr>
     in
     if i = LEA then Next (skip\<lparr>ax := bp v + sizeof_int * opd\<rparr>)
     else if i = IMM then Next (skip\<lparr>ax := opd\<rparr>)
     else if i = JMP then Next (v\<lparr>pc := opd\<rparr>)
     else if i = JSR then
       (let v2 = push (pc v + sizeof_int) v in Next (v2\<lparr>pc := rd64 (vmem v2) (pc v)\<rparr>))
     else if i = BZ then Next (v\<lparr>pc := (if ax v \<noteq> 0 then pc v + sizeof_int else opd)\<rparr>)
     else if i = BNZ then Next (v\<lparr>pc := (if ax v \<noteq> 0 then opd else pc v + sizeof_int)\<rparr>)
     else if i = ENT then
       (let v2 = push (bp v) v; v3 = v2\<lparr>bp := sp v2\<rparr>
        in Next (v3\<lparr>sp := sp v3 - sizeof_int * rd64 (vmem v3) (pc v), pc := pc v + sizeof_int\<rparr>))
     else if i = ADJ then Next (skip\<lparr>sp := sp v + sizeof_int * opd\<rparr>)
     else if i = LEV then
       (let v2 = v\<lparr>sp := bp v\<rparr>; v3 = (pop v2)\<lparr>bp := stk v2 0\<rparr>
        in Next ((pop v3)\<lparr>pc := stk v3 0\<rparr>))
     else if i = LI then Next (v\<lparr>ax := rd64 (vmem v) (ax v)\<rparr>)
     else if i = LC then Next (v\<lparr>ax := scast (vmem v (ax v))\<rparr>)
     else if i = SI then Next ((pop v)\<lparr>vmem := wr64 (vmem v) (stk v 0) (ax v)\<rparr>)
     else if i = SC then
       Next ((pop v)\<lparr>vmem := (vmem v)(stk v 0 := ucast (ax v)), ax := scast (ucast (ax v) :: 8 word)\<rparr>)
     else if i = PSH then Next (push (ax v) v)
     else if i = OR then binop or v
     else if i = XOR then binop xor v
     else if i = AND then binop and v
     else if i = EQ then binop (\<lambda>x y. bool_cell (x = y)) v
     else if i = NE then binop (\<lambda>x y. bool_cell (x \<noteq> y)) v
     else if i = LT then binop (\<lambda>x y. bool_cell (x <s y)) v
     else if i = GT then binop (\<lambda>x y. bool_cell (y <s x)) v
     else if i = LE then binop (\<lambda>x y. bool_cell (x <=s y)) v
     else if i = GE then binop (\<lambda>x y. bool_cell (y <=s x)) v
     else if i = SHL then binop (\<lambda>x y. push_bit (unat (and y 63)) x) v
     else if i = SHR then binop (\<lambda>x y. signed_drop_bit (unat (and y 63)) x) v
     else if i = ADD then binop (+) v
     else if i = SUB then binop (-) v
     else if i = MUL then binop (*) v
     else if i = DIV then
       (if ax v = 0 \<or> (ax v = - 1 \<and> stk v 0 = push_bit 63 1) then Trap v else binop c_div v)
     else if i = MOD then
       (if ax v = 0 \<or> (ax v = - 1 \<and> stk v 0 = push_bit 63 1) then Trap v else binop c_mod v)
     else if i = OPEN then
       (let r = h_open h (string_at (vmem v) (stk v 1)) (stk v 0) (world v)
        in Next (v\<lparr>ax := fst r, world := snd r, vcalls := vcalls v @ [Open (stk v 1) (stk v 0)]\<rparr>))
     else if i = READ then
       (let r = h_read h (stk v 2) (stk v 0) (world v)
        in Next (v\<lparr>ax := fst r, vmem := store_bytes (vmem v) (stk v 1) (fst (snd r)),
                    world := snd (snd r), vcalls := vcalls v @ [Read (Fd (stk v 2)) (stk v 0)]\<rparr>))
     else if i = CLOS then
       (let r = h_close h (stk v 0) (world v)
        in Next (v\<lparr>ax := fst r, world := snd r, vcalls := vcalls v @ [Close (Fd (stk v 0))]\<rparr>))
     else if i = PRTF then
       (let t = sp v + sizeof_int * rd64 (vmem v) (pc v + sizeof_int);
            arg = (\<lambda>k. rd64 (vmem v) (t - sizeof_int * k))
        in case c_printf (vmem v) (string_at (vmem v) (arg 1)) [arg 2, arg 3, arg 4, arg 5, arg 6] of
             None \<Rightarrow> Trap v
           | Some txt \<Rightarrow> Next (v\<lparr>ax := of_nat (length txt), vout := vout v @ txt\<rparr>))
     else if i = MALC then
       (let r = h_malloc h (stk v 0) (world v)
        in Next (v\<lparr>ax := fst r, world := snd r, vcalls := vcalls v @ [Malloc (stk v 0)]\<rparr>))
     else if i = FREE then
       Next (v\<lparr>world := h_free h (stk v 0) (world v), vcalls := vcalls v @ [Free (stk v 0)]\<rparr>)
     else if i = MSET then
       Next (v\<lparr>ax := stk v 2, vmem := memset (vmem v) (stk v 2) (ucast (stk v 1)) (unat (stk v 0))\<rparr>)
     else if i = MCMP then
       Next (v\<lparr>ax := memcmp (vmem v) (stk v 2) (stk v 1) (unat (stk v 0))\<rparr>)
     else if i = EXIT then
       Halt (stk v 0)
         (v\<lparr>vout := vout v @ ''exit('' @ show_int (sint (ucast (stk v 0) :: 32 word)) @ '') cycle = '' @
                            show_int (sint (ucast (cycle v) :: 32 word)) @ ''\<newline>''\<rparr>)
     else
       Halt (- 1)
         (v\<lparr>vout := vout v @ ''unknown instruction = '' @ show_int (sint (ucast i :: 32 word)) @
                            ''! cycle = '' @ show_int (sint (ucast (cycle v) :: 32 word)) @ ''\<newline>''\<rparr>))"

text \<open>The loop, with fuel.\<close>

fun run :: "nat \<Rightarrow> 'w host \<Rightarrow> cell \<Rightarrow> 'w vm \<Rightarrow> 'w step_res option" where
  "run 0 h dbg v = None"
| "run (Suc n) h dbg v =
     (case step h dbg v of Next v' \<Rightarrow> run n h dbg v' | r \<Rightarrow> Some r)"

subsection \<open>\<^verbatim>\<open>main\<close>\<close>

text \<open>
  Lines 595-604: the machine as \<^verbatim>\<open>main\<close> starts it. \<open>argc\<close> and \<open>argv\<close> are the values the
  two variables have after the flags have been taken off.
\<close>

definition boot :: "env \<Rightarrow> cstate \<Rightarrow> cell \<Rightarrow> cell \<Rightarrow> cell \<Rightarrow> 'w \<Rightarrow> 'w vm" where
  "boot en s entry argc argv w =
     (let v0 = \<lparr>pc = entry, sp = m_stack en + poolsz, bp = m_stack en + poolsz, ax = 0, cycle = 0,
                vmem = image s, vout = [], vcalls = [], world = w\<rparr>;
          v1 = push PSH (push EXIT v0);
          t = sp v1
      in push t (push argv (push argc v1)))"

text \<open>
  What a run of \<^verbatim>\<open>main\<close> amounts to: the status returned, the calls of \<^verbatim>\<open>printf\<close> made by
  the compiler, the calls made to the host by \<^verbatim>\<open>main\<close> itself, and the machine at its end
  if it has been started (\<open>None\<close>: the loop of line 608 has not been entered).
\<close>

record 'w result =
  status :: cell
  printed :: "out_ev list"
  calls :: "sysev list"
  machine :: "'w vm option"

datatype 'w final = Returned "'w result" | Trapped "'w result" | Unfinished

text \<open>
  \<^verbatim>\<open>int main(int argc, char **argv)\<close> (lines 449-660). \<open>fp\<close> is the fuel of the parser and
  \<open>fv\<close> that of the machine.
\<close>

definition main :: "env \<Rightarrow> 'w host \<Rightarrow> 'w \<Rightarrow> nat \<Rightarrow> nat \<Rightarrow> string list \<Rightarrow> 'w final" where
  "main en h w fp fv argv =
    (case load en argv of
       Refused ou cs \<Rightarrow> Returned \<lparr>status = - 1, printed = ou, calls = cs, machine = None\<rparr>
     | Loaded s0 idmain av cs \<Rightarrow>
        (case declarations fp (next' (s0\<lparr>line := 1\<rparr>)) of
           OutOfFuel \<Rightarrow> Unfinished
         | Exit s \<Rightarrow> Returned \<lparr>status = - 1, printed = out s, calls = cs, machine = None\<rparr>
         | Cont s \<Rightarrow>
            (let entry = Val (rec_at s idmain) in
             if entry = 0 then
               Returned \<lparr>status = - 1, printed = out (printf ''main() not defined\<newline>'' [] s),
                         calls = cs, machine = None\<rparr>
             else if src s \<noteq> 0 then
               Returned \<lparr>status = 0, printed = out s, calls = cs, machine = None\<rparr>
             else
               (case run fv h (debug s)
                       (boot en s entry (of_nat (length av))
                          (argv_ptr en + sizeof_int * of_nat (length argv - length av)) w) of
                  None \<Rightarrow> Unfinished
                | Some (Halt c v) \<Rightarrow>
                    Returned \<lparr>status = c, printed = out s, calls = cs, machine = Some v\<rparr>
                | Some (Trap v) \<Rightarrow>
                    Trapped \<lparr>status = 0, printed = out s, calls = cs, machine = Some v\<rparr>
                | Some (Next v) \<Rightarrow> Unfinished))))"

section \<open>Properties\<close>

text \<open>
  A state to run the lexer and the parser on a text by itself: the globals as \<^verbatim>\<open>main\<close>
  leaves them after zeroing the pools (line 470), with \<^verbatim>\<open>p\<close> and \<^verbatim>\<open>lp\<close> on the text.
\<close>

definition blank :: "string \<Rightarrow> cstate" where
  "blank txt = \<lparr>p = txt, lp = txt, data = 0x200000, ebase = 0x100000, e = [0], le = 0, id' = 0,
      sym = [], tk = 0, ival = 0, ty = 0, loc = 0, line = 1, src = 0, debug = 0,
      mem = (\<lambda>x. 0), out = []\<rparr>"

subsection \<open>The lexer on \<^verbatim>\<open>!\<close>\<close>

text \<open>
  Claim C5, as the code has it. When the lexer reads a \<^verbatim>\<open>!\<close> that is not followed by
  \<^verbatim>\<open>=\<close>, \<^verbatim>\<open>next()\<close> returns at once: the current token is the raw character \<^verbatim>\<open>!\<close> (33),
  \<^verbatim>\<open>p\<close> is just behind it, and nothing else has changed. The loop does not go round again.
\<close>

theorem C5_bare_bang_is_returned:
  assumes "p s = CHR ''!'' # rest" and "peek rest \<noteq> 61"
  shows "next' s = s\<lparr>tk := 33, p := rest\<rparr>"
  using assms
  by (subst next'.simps) (simp add: Let_def cval_def is_letter_def)

theorem C5_bare_bang_witness:
  "p (blank ''!x'') = CHR ''!'' # ''x'' \<and> peek ''x'' \<noteq> (61 :: cell) \<and>
   next' (blank ''!x'') = (blank ''!x'')\<lparr>tk := 33, p := ''x''\<rparr>"
proof -
  have a: "p (blank ''!x'') = CHR ''!'' # ''x''" by (simp add: blank_def)
  have b: "peek ''x'' \<noteq> (61 :: cell)" by (simp add: cval_def)
  from a b C5_bare_bang_is_returned [OF a b] show ?thesis by simp
qed

text \<open>
  On the text \<^verbatim>\<open>!x\<close> the call returns with the token 33 and \<^verbatim>\<open>x\<close> unread. Had the loop
  gone round again, the call would have read \<^verbatim>\<open>x\<close> and returned the token \<open>Id\<close>.
\<close>

theorem C5_counterexample:
  "tk (next' (blank ''!x'')) = 33 \<and> p (next' (blank ''!x'')) = ''x'' \<and>
   tk (next' ((blank ''!x'')\<lparr>tk := 33, p := ''x''\<rparr>)) = Id' \<and>
   p (next' ((blank ''!x'')\<lparr>tk := 33, p := ''x''\<rparr>)) = []"
  by (simp add: blank_def next'.simps Let_def cval_def is_letter_def is_digit_def ident_def
        sym_upd_def sym_at_def)

subsection \<open>Command-line flags\<close>



subsection \<open>Opcodes with an operand\<close>

text \<open>The opcodes in the order of the enumeration (lines 57-66).\<close>

definition opcodes :: "cell list" where
  "opcodes = [LEA, IMM, JMP, JSR, BZ, BNZ, ENT, ADJ, LEV, LI, LC, SI, SC, PSH,
              OR, XOR, AND, EQ, NE, LT, GT, LE, GE, SHL, SHR, ADD, SUB, MUL, DIV, MOD,
              OPEN, READ, CLOS, PRTF, MALC, FREE, MSET, MCMP, EXIT]"

lemma has_operand_cases:
  "i \<in> set opcodes \<Longrightarrow> has_operand i \<longleftrightarrow> i \<in> {LEA, IMM, JMP, JSR, BZ, BNZ, ENT, ADJ}"
  by (auto simp: opcodes_def has_operand_def word_sle_eq)

text \<open>
  The machine on an opcode of the enumeration: behind an opcode up to \<open>ADJ\<close> the next
  word is an operand, which the machine steps over or jumps to; behind any other
  opcode the next word is the next instruction (\<open>LEV\<close> aside, which returns).
\<close>

lemma step_pc:
  assumes "step h dbg v = Next v'" and "rd64 (vmem v) (pc v) = i" and "i \<in> set opcodes"
  shows "if has_operand i
         then pc v' = pc v + 16 \<or> pc v' = rd64 (vmem v') (pc v + 8)
         else i = LEV \<or> pc v' = pc v + 8"
proof -
  from assms(3) have "i \<in> {LEA, IMM, JMP, JSR, BZ, BNZ, ENT, ADJ} \<or> i = LEV \<or>
      i \<in> {LI, LC, SI, SC, PSH, OR, XOR, AND, EQ, NE, LT, GT, LE, GE, SHL, SHR, ADD, SUB, MUL,
            DIV, MOD, OPEN, READ, CLOS, PRTF, MALC, FREE, MSET, MCMP, EXIT}"
    by (auto simp: opcodes_def)
  then consider (opd) "i \<in> {LEA, IMM, JMP, JSR, BZ, BNZ, ENT, ADJ}" | (lev) "i = LEV"
    | (plain) "i \<in> {LI, LC, SI, SC, PSH, OR, XOR, AND, EQ, NE, LT, GT, LE, GE, SHL, SHR, ADD, SUB,
            MUL, DIV, MOD, OPEN, READ, CLOS, PRTF, MALC, FREE, MSET, MCMP, EXIT}"
    by blast
  then show ?thesis
  proof cases
    case opd
    then have "has_operand i" by (auto simp: has_operand_def word_sle_eq)
    moreover have "pc v' = pc v + 16 \<or> pc v' = rd64 (vmem v') (pc v + 8)"
      using opd assms(1,2)
      by (auto simp: step_def Let_def push_def split: if_splits)
    ultimately show ?thesis by simp
  next
    case lev
    then show ?thesis by (simp add: has_operand_def word_sle_eq)
  next
    case plain
    then have "\<not> has_operand i" by (auto simp: has_operand_def word_sle_eq)
    moreover have "pc v' = pc v + 8"
      using plain assms(1,2)
      by (auto simp: step_def Let_def push_def pop_def binop_def split: if_splits option.splits)
    ultimately show ?thesis by simp
  qed
qed

text \<open>
  Claim C6, as the code has it. The opcodes with an inline operand are those up to \<open>ADJ\<close>,
  and they are the first eight of the enumeration, not nine: the listing prints an
  operand behind exactly these, and the ninth opcode, \<open>LEV\<close>, has none.
\<close>

theorem C6_operand_opcodes:
  "filter has_operand opcodes = [LEA, IMM, JMP, JSR, BZ, BNZ, ENT, ADJ] \<and>
   length (filter has_operand opcodes) = 8 \<and>
   filter has_operand opcodes = take 8 opcodes \<and>
   (i \<in> set opcodes \<longrightarrow>
      listing [0, i, x] 0 =
        (if i \<in> {LEA, IMM, JMP, JSR, BZ, BNZ, ENT, ADJ}
         then ([Printf ''%8.4s'' [S (drop (unat (i * 5)) mnemonics)], Printf '' %d\<newline>'' [I x]], 2)
         else (Printf ''%8.4s'' [S (drop (unat (i * 5)) mnemonics)] # Printf ''\<newline>'' [] #
                 fst (listing [0, i, x] 1), snd (listing [0, i, x] 1))))"
proof -
  have a: "filter has_operand opcodes = [LEA, IMM, JMP, JSR, BZ, BNZ, ENT, ADJ]"
    by (simp add: opcodes_def has_operand_def word_sle_eq)
  have b: "take 8 opcodes = [LEA, IMM, JMP, JSR, BZ, BNZ, ENT, ADJ]"
    by (simp add: opcodes_def)
  have c: "i \<in> set opcodes \<longrightarrow>
      listing [0, i, x] 0 =
        (if i \<in> {LEA, IMM, JMP, JSR, BZ, BNZ, ENT, ADJ}
         then ([Printf ''%8.4s'' [S (drop (unat (i * 5)) mnemonics)], Printf '' %d\<newline>'' [I x]], 2)
         else (Printf ''%8.4s'' [S (drop (unat (i * 5)) mnemonics)] # Printf ''\<newline>'' [] #
                 fst (listing [0, i, x] 1), snd (listing [0, i, x] 1)))"
  proof
    assume i: "i \<in> set opcodes"
    have l: "listing [0, i, x] 0 =
        (if has_operand i
         then ([Printf ''%8.4s'' [S (drop (unat (i * 5)) mnemonics)], Printf '' %d\<newline>'' [I x]], 2)
         else (Printf ''%8.4s'' [S (drop (unat (i * 5)) mnemonics)] # Printf ''\<newline>'' [] #
                 fst (listing [0, i, x] 1), snd (listing [0, i, x] 1)))"
      by (subst listing.simps) (simp add: cell_at_def Let_def)
    show "listing [0, i, x] 0 =
        (if i \<in> {LEA, IMM, JMP, JSR, BZ, BNZ, ENT, ADJ}
         then ([Printf ''%8.4s'' [S (drop (unat (i * 5)) mnemonics)], Printf '' %d\<newline>'' [I x]], 2)
         else (Printf ''%8.4s'' [S (drop (unat (i * 5)) mnemonics)] # Printf ''\<newline>'' [] #
                 fst (listing [0, i, x] 1), snd (listing [0, i, x] 1)))"
      unfolding l using has_operand_cases [OF i] by simp
  qed
  from a b c show ?thesis by simp
qed

theorem C6_operand_opcodes_witness:
  "filter has_operand opcodes = take 8 opcodes \<and> LEV \<in> set opcodes \<and>
   listing [0, IMM, 5] 0 = ([Printf ''%8.4s'' [S (drop 5 mnemonics)], Printf '' %d\<newline>'' [I 5]], 2) \<and>
   fst (listing [0, LEV, 5] 0) =
     [Printf ''%8.4s'' [S (drop 40 mnemonics)], Printf ''\<newline>'' [],
      Printf ''%8.4s'' [S (drop 25 mnemonics)], Printf '' %d\<newline>'' [I 0]]"
proof -
  have m: "IMM \<in> set opcodes" "LEV \<in> set opcodes" by (simp_all add: opcodes_def)
  have r: "listing [0, LEV, 5] 1 =
     ([Printf ''%8.4s'' [S (drop 25 mnemonics)], Printf '' %d\<newline>'' [I 0]], 3)"
    by (simp add: cell_at_def Let_def has_operand_def)
  from m r C6_operand_opcodes [of IMM 5] C6_operand_opcodes [of LEV 5] show ?thesis
    by simp
qed

text \<open>
  The ninth opcode of the enumeration is \<open>LEV\<close>, and it has no operand: nine opcodes with
  an operand there are not.
\<close>

theorem C6_counterexample:
  "opcodes ! 8 = LEV \<and> \<not> has_operand (opcodes ! 8) \<and> length (filter has_operand opcodes) \<noteq> 9"
  by (simp add: opcodes_def has_operand_def word_sle_eq)

subsection \<open>The constant of \<^verbatim>\<open>++\<close> and \<^verbatim>\<open>--\<close>\<close>

text \<open>
  Claim C3, as the code has it. For a prefix and for a postfix \<^verbatim>\<open>++\<close> or \<^verbatim>\<open>--\<close> on an lvalue
  (code that ends in \<open>LC\<close> or \<open>LI\<close>), the constant emitted is \<^verbatim>\<open>sizeof(int)\<close> when the type of
  the operand is greater than \<open>PTR\<close>, and 1 otherwise. \<^verbatim>\<open>char *\<close> is \<open>CHAR + PTR = PTR\<close>, which
  is not greater than \<open>PTR\<close>: its constant is 1, like that of \<^verbatim>\<open>char\<close> and \<^verbatim>\<open>int\<close>; \<^verbatim>\<open>int *\<close> and
  every pointer to a pointer have \<^verbatim>\<open>sizeof(int)\<close>.
\<close>

theorem C3_incdec_constant:
  assumes "e_last s = LC \<or> e_last s = LI"
  shows "pre_incdec t s =
           Cont (s\<lparr>e := (e s)[e_ptr s := PSH] @
                    [e_last s, PSH, IMM, if PTR <s ty s then sizeof_int else sizeof_char,
                     if t = Inc then ADD else SUB, if ty s = CHAR' then SC else SI]\<rparr>) \<and>
         post_incdec s =
           Cont (next' (s\<lparr>e := (e s)[e_ptr s := PSH] @
                    [e_last s, PSH, IMM, if PTR <s ty s then sizeof_int else sizeof_char,
                     if tk s = Inc then ADD else SUB,
                     PSH, IMM, if PTR <s ty s then sizeof_int else sizeof_char,
                     if tk s = Inc then SUB else ADD]\<rparr>)) \<and>
         \<not> PTR <s CHAR' \<and> \<not> PTR <s INT' \<and> \<not> PTR <s CHAR' + PTR \<and>
         PTR <s INT' + PTR \<and> PTR <s CHAR' + PTR + PTR"
  using assms
  by (auto simp: pre_incdec_def post_incdec_def emits_def set_last_def word_sless_alt)

text \<open>
  \<^verbatim>\<open>++p\<close> for a global \<^verbatim>\<open>char *p\<close> at address \<open>0x200000\<close>: the operand has been compiled to
  \<open>IMM 0x200000, LI\<close> and its type is \<open>CHAR + PTR\<close>.
\<close>

definition char_ptr_operand :: cstate where
  "char_ptr_operand = (blank '';'')\<lparr>e := [0, IMM, 0x200000, LI], ty := CHAR' + PTR, tk := 59, p := []\<rparr>"

theorem C3_incdec_constant_witness:
  "(e_last char_ptr_operand = LC \<or> e_last char_ptr_operand = LI) \<and>
   pre_incdec Inc char_ptr_operand =
     Cont (char_ptr_operand\<lparr>e := [0, IMM, 0x200000, PSH, LI, PSH, IMM, 1, ADD, SI]\<rparr>)"
proof -
  have a: "e_last char_ptr_operand = LC \<or> e_last char_ptr_operand = LI"
    by (simp add: char_ptr_operand_def blank_def e_last_def e_ptr_def cell_at_def)
  from a C3_incdec_constant [OF a, of Inc] show ?thesis
    by (simp add: char_ptr_operand_def blank_def e_last_def e_ptr_def cell_at_def word_sless_alt)
qed

text \<open>
  The operand is a pointer (\<^verbatim>\<open>char *\<close>), and the constant emitted behind \<open>IMM\<close> is 1, not
  \<^verbatim>\<open>sizeof(int)\<close>.
\<close>

theorem C3_counterexample:
  "ty char_ptr_operand = CHAR' + PTR \<and>
   pre_incdec Inc char_ptr_operand =
     Cont (char_ptr_operand\<lparr>e := [0, IMM, 0x200000, PSH, LI, PSH, IMM, 1, ADD, SI]\<rparr>) \<and>
   pre_incdec Inc char_ptr_operand \<noteq>
     Cont (char_ptr_operand\<lparr>e := [0, IMM, 0x200000, PSH, LI, PSH, IMM, sizeof_int, ADD, SI]\<rparr>)"
  by (simp add: char_ptr_operand_def blank_def pre_incdec_def emits_def set_last_def e_last_def
        e_ptr_def cell_at_def word_sless_alt)

subsection \<open>Subtraction of pointers\<close>

text \<open>
  Claim C4, as the code has it. Where both operands of an infix \<^verbatim>\<open>-\<close> have the same type
  and that type is greater than \<open>PTR\<close> (\<^verbatim>\<open>int *\<close>, or a pointer to a pointer), the code is
  \<open>SUB, PSH, IMM sizeof(int), DIV\<close> and the type of the result is \<open>INT\<close>. \<^verbatim>\<open>char *\<close> is not
  greater than \<open>PTR\<close>: for two operands of type \<^verbatim>\<open>char *\<close> the code is a plain \<open>SUB\<close>.
\<close>

theorem C4_pointer_difference:
  "(PTR <s t \<and> ty s = t \<longrightarrow>
      sub_emit t s = s\<lparr>e := e s @ [SUB, PSH, IMM, sizeof_int, DIV], ty := INT'\<rparr>) \<and>
   (ty s = CHAR' + PTR \<longrightarrow> e (sub_emit (CHAR' + PTR) s) = e s @ [SUB]) \<and>
   PTR <s INT' + PTR \<and> PTR <s CHAR' + PTR + PTR \<and> \<not> PTR <s CHAR' + PTR"
  by (auto simp: sub_emit_def emits_def word_sless_alt)

text \<open>
  \<^verbatim>\<open>q - q\<close> for a global \<^verbatim>\<open>int *q\<close> and \<^verbatim>\<open>p - p\<close> for a global \<^verbatim>\<open>char *p\<close>, both operands
  compiled.
\<close>

definition int_ptr_operands :: cstate where
  "int_ptr_operands =
     (blank '';'')\<lparr>e := [0, IMM, 0x200008, LI, PSH, IMM, 0x200008, LI], ty := INT' + PTR, tk := 59, p := []\<rparr>"

definition char_ptr_operands :: cstate where
  "char_ptr_operands =
     (blank '';'')\<lparr>e := [0, IMM, 0x200000, LI, PSH, IMM, 0x200000, LI], ty := CHAR' + PTR, tk := 59, p := []\<rparr>"

theorem C4_pointer_difference_witness:
  "PTR <s INT' + PTR \<and> ty int_ptr_operands = INT' + PTR \<and>
   sub_emit (INT' + PTR) int_ptr_operands =
     int_ptr_operands\<lparr>e := [0, IMM, 0x200008, LI, PSH, IMM, 0x200008, LI, SUB, PSH, IMM, 8, DIV],
                      ty := INT'\<rparr> \<and>
   ty char_ptr_operands = CHAR' + PTR \<and>
   e (sub_emit (CHAR' + PTR) char_ptr_operands) = [0, IMM, 0x200000, LI, PSH, IMM, 0x200000, LI, SUB]"
  using C4_pointer_difference [of "INT' + PTR" int_ptr_operands]
    C4_pointer_difference [of "INT' + PTR" char_ptr_operands]
  by (simp add: int_ptr_operands_def char_ptr_operands_def blank_def)

text \<open>
  Both operands have the pointer type \<^verbatim>\<open>char *\<close>; the code is \<open>SUB\<close> alone, without the
  division, and the type of the result is not \<open>INT\<close>.
\<close>

theorem C4_counterexample:
  "ty char_ptr_operands = CHAR' + PTR \<and>
   e (sub_emit (CHAR' + PTR) char_ptr_operands) = [0, IMM, 0x200000, LI, PSH, IMM, 0x200000, LI, SUB] \<and>
   e (sub_emit (CHAR' + PTR) char_ptr_operands) \<noteq>
     [0, IMM, 0x200000, LI, PSH, IMM, 0x200000, LI, SUB, PSH, IMM, sizeof_int, DIV] \<and>
   ty (sub_emit (CHAR' + PTR) char_ptr_operands) \<noteq> INT'"
  by (simp add: char_ptr_operands_def blank_def sub_emit_def emits_def word_sless_alt)

subsection \<open>Invariants of the symbol table\<close>

text \<open>
  What the parser keeps true of the symbol table. \<open>keys\<close>: the three slots a lookup reads.
  \<open>tab_ok\<close>: every record touched is in use (its \<open>Tk\<close> is not zero) and no saved class is
  \<open>Loc\<close>. \<open>base c K\<close>: \<^verbatim>\<open>src\<close> has the value \<open>c\<close>, the table is \<open>tab_ok\<close> and starts with the
  keys \<open>K\<close>. \<open>id_ok\<close>: \<^verbatim>\<open>id\<close> points to a record in use. \<open>good\<close>: \<open>base\<close>, and \<^verbatim>\<open>id\<close> points
  to a record in use whenever the current token is an identifier.
\<close>

definition keys :: "symrec list \<Rightarrow> (cell \<times> cell \<times> string) list" where
  "keys tab = map (\<lambda>r. (Tk r, Hash r, Name r)) tab"

definition tab_ok :: "symrec list \<Rightarrow> bool" where
  "tab_ok tab \<longleftrightarrow> list_all (\<lambda>r. Tk r \<noteq> 0 \<and> HClass r \<noteq> Loc) tab"

definition base :: "cell \<Rightarrow> (cell \<times> cell \<times> string) list \<Rightarrow> cstate \<Rightarrow> bool" where
  "base c K s \<longleftrightarrow> src s = c \<and> tab_ok (sym s) \<and> take (length K) (keys (sym s)) = K"

definition id_ok :: "cstate \<Rightarrow> bool" where
  "id_ok s \<longleftrightarrow> id' s < length (sym s)"

definition good :: "cell \<Rightarrow> (cell \<times> cell \<times> string) list \<Rightarrow> cstate \<Rightarrow> bool" where
  "good c K s \<longleftrightarrow> base c K s \<and> (tk s = Id' \<longrightarrow> id_ok s)"

lemma sym_walk_found:
  "sym_walk tab i h pp n = (j, True) \<Longrightarrow> i \<le> j \<and> j < i + length tab"
proof (induction tab arbitrary: i)
  case Nil
  then show ?case by simp
next
  case (Cons r tab)
  show ?case
  proof (cases "Tk r \<noteq> 0 \<and> \<not> (h = Hash r \<and> take n (Name r) = take n pp)")
    case True
    with Cons.prems have "sym_walk tab (Suc i) h pp n = (j, True)" by (auto split: if_splits)
    from Cons.IH [OF this] show ?thesis by simp
  next
    case False
    with Cons.prems show ?thesis by (auto split: if_splits)
  qed
qed

lemma sym_walk_missing:
  "tab_ok tab \<Longrightarrow> sym_walk tab i h pp n = (j, False) \<Longrightarrow> j = i + length tab"
proof (induction tab arbitrary: i)
  case Nil
  then show ?case by simp
next
  case (Cons r tab)
  from Cons.prems(1) have r: "Tk r \<noteq> 0" and t: "tab_ok tab" by (simp_all add: tab_ok_def)
  from Cons.prems(2) r have "sym_walk tab (Suc i) h pp n = (j, False)" by (auto split: if_splits)
  from Cons.IH [OF t this] show ?case by simp
qed

lemma sym_upd_append:
  "sym_upd (length tab) f tab = tab @ [f zero_sym]"
  by (simp add: sym_upd_def)

lemma sym_upd_inside:
  "i < length tab \<Longrightarrow> sym_upd i f tab = tab[i := f (tab ! i)]"
  by (simp add: sym_upd_def)

lemma ident_cases:
  assumes "scan_ident (tk s) (p s) = (h, rest)"
    and "sym_walk (sym s) 0 (push_bit 6 h + of_nat (length pp - length rest)) pp (length pp - length rest) = (j, found)"
  shows "ident pp s =
    (if found then s\<lparr>p := rest, id' := j, tk := Tk (sym_at (sym s) j)\<rparr>
     else s\<lparr>p := rest, id' := j,
            sym := sym_upd j (\<lambda>r. r\<lparr>Name := pp, Hash := push_bit 6 h + of_nat (length pp - length rest), Tk := Id'\<rparr>) (sym s),
            tk := Id'\<rparr>)"
  using assms by (simp add: ident_def Let_def)

lemma keys_length: "take (length K) (keys tab) = K \<Longrightarrow> length K \<le> length tab"
proof -
  assume a: "take (length K) (keys tab) = K"
  have "length (take (length K) (keys tab)) = min (length K) (length tab)" by (simp add: keys_def)
  with a show ?thesis by simp
qed

lemma base_ident:
  assumes "base c K s"
  shows "base c K (ident pp s) \<and> id_ok (ident pp s)"
proof -
  obtain h rest where r: "scan_ident (tk s) (p s) = (h, rest)" by (cases "scan_ident (tk s) (p s)")
  define n where "n = length pp - length rest"
  define hh where "hh = push_bit 6 h + (of_nat n :: cell)"
  obtain j found where w: "sym_walk (sym s) 0 hh pp n = (j, found)"
    by (cases "sym_walk (sym s) 0 hh pp n")
  from assms have t: "tab_ok (sym s)" and k: "take (length K) (keys (sym s)) = K" and c: "src s = c"
    by (simp_all add: base_def)
  from k have lk: "length K \<le> length (sym s)" by (rule keys_length)
  note ic = ident_cases [OF r w [unfolded hh_def n_def]]
  show ?thesis
  proof (cases found)
    case True
    with w have "j < length (sym s)" using sym_walk_found [of "sym s" 0 hh pp n j] by simp
    then show ?thesis using True t k c
      by (simp add: ic base_def id_ok_def)
  next
    case False
    with w t have j: "j = length (sym s)" using sym_walk_missing [of "sym s" 0 hh pp n j] by simp
    have "tab_ok (sym s @ [zero_sym\<lparr>Name := pp, Hash := hh, Tk := Id'\<rparr>])"
      using t by (simp add: tab_ok_def zero_sym_def)
    moreover have "take (length K) (keys (sym s @ [zero_sym\<lparr>Name := pp, Hash := hh, Tk := Id'\<rparr>])) = K"
      using k lk by (simp add: keys_def)
    ultimately show ?thesis using False c
      by (simp add: ic base_def id_ok_def j sym_upd_append hh_def n_def)
  qed
qed

lemma newline_fields [simp]:
  "src (newline s) = src s" "sym (newline s) = sym s" "id' (newline s) = id' s" "tk (newline s) = tk s"
  by (simp_all add: newline_def Let_def printf_def)

lemma number_fields [simp]:
  "src (number s) = src s" "sym (number s) = sym s" "id' (number s) = id' s" "tk (number s) = Num"
  by (simp_all add: number_def Let_def)

lemma literal_fields [simp]:
  "src (literal s) = src s" "sym (literal s) = sym s" "id' (literal s) = id' s"
  "tk (literal s) = (if tk s = 34 then 34 else Num)"
  by (simp_all add: literal_def Let_def)

text \<open>what next does to the fields the invariant reads\<close>

definition lexed :: "cell \<Rightarrow> (cell \<times> cell \<times> string) list \<Rightarrow> cstate \<Rightarrow> cstate \<Rightarrow> bool" where
  "lexed c K s s' \<longleftrightarrow> good c K s' \<and> (id_ok s \<longrightarrow> id_ok s')"

lemma lexed_same:
  "base c K s \<Longrightarrow> src s' = src s \<Longrightarrow> sym s' = sym s \<Longrightarrow> id' s' = id' s \<Longrightarrow> tk s' \<noteq> Id' \<Longrightarrow> lexed c K s s'"
  by (simp add: lexed_def good_def base_def id_ok_def)

lemma lexed_via:
  "lexed c K t s' \<Longrightarrow> src t = src s \<Longrightarrow> sym t = sym s \<Longrightarrow> id' t = id' s \<Longrightarrow> lexed c K s s'"
  by (simp add: lexed_def good_def base_def id_ok_def)

lemma base_same:
  "base c K s \<Longrightarrow> src t = src s \<Longrightarrow> sym t = sym s \<Longrightarrow> base c K t"
  by (simp add: base_def)

lemma next_lexed: "base c K s \<Longrightarrow> lexed c K s (next' s)"
proof (induction s rule: next'.induct)
  case (1 s0)
  note b = 1(5)
  show ?case
  proof (cases "peek (p s0) = 0")
    case True
    then show ?thesis using b by (subst next'.simps) (simp add: lexed_same)
  next
    case False
    define s where "s = s0\<lparr>tk := peek (p s0), p := tl (p s0)\<rparr>"
    have bs: "base c K s" using b by (simp add: s_def base_def)
    have f: "src s = src s0" "sym s = sym s0" "id' s = id' s0" by (simp_all add: s_def)
    have st: "tk s = peek (p s0)" by (simp add: s_def)
    have via: "lexed c K t s' \<Longrightarrow> src t = src s \<Longrightarrow> sym t = sym s \<Longrightarrow> id' t = id' s \<Longrightarrow> lexed c K s0 s'" for t s'
      using f by (simp add: lexed_def good_def base_def id_ok_def)
    have same: "src s' = src s \<Longrightarrow> sym s' = sym s \<Longrightarrow> id' s' = id' s \<Longrightarrow> tk s' \<noteq> Id' \<Longrightarrow> lexed c K s0 s'" for s'
      using f b by (simp add: lexed_def good_def base_def id_ok_def)
    have id: "lexed c K s0 (ident pp s)" for pp
      using base_ident [OF bs, of pp] by (simp add: lexed_def good_def)
    have nx: "next' s0 =
       (if tk s = 10 then next' (newline s)
       else if tk s = 35 then next' (s\<lparr>p := skip_line (p s)\<rparr>)
       else if is_letter (tk s) then ident (p s0) s
       else if 48 <=s tk s \<and> tk s <=s 57 then number s
       else if tk s = 47 then
         (if peek (p s) = 47 then next' (s\<lparr>p := skip_line (tl (p s))\<rparr>)
          else s\<lparr>tk := Div\<rparr>)
       else if tk s = 39 \<or> tk s = 34 then literal s
       else if tk s = 61 then
         (if peek (p s) = 61 then s\<lparr>p := tl (p s), tk := Eq\<rparr> else s\<lparr>tk := Assign\<rparr>)
       else if tk s = 43 then
         (if peek (p s) = 43 then s\<lparr>p := tl (p s), tk := Inc\<rparr> else s\<lparr>tk := Add\<rparr>)
       else if tk s = 45 then
         (if peek (p s) = 45 then s\<lparr>p := tl (p s), tk := Dec\<rparr> else s\<lparr>tk := Sub\<rparr>)
       else if tk s = 33 then
         (if peek (p s) = 61 then s\<lparr>p := tl (p s), tk := Ne\<rparr> else s)
       else if tk s = 60 then
         (if peek (p s) = 61 then s\<lparr>p := tl (p s), tk := Le\<rparr>
          else if peek (p s) = 60 then s\<lparr>p := tl (p s), tk := Shl\<rparr>
          else s\<lparr>tk := Lt\<rparr>)
       else if tk s = 62 then
         (if peek (p s) = 61 then s\<lparr>p := tl (p s), tk := Ge\<rparr>
          else if peek (p s) = 62 then s\<lparr>p := tl (p s), tk := Shr\<rparr>
          else s\<lparr>tk := Gt\<rparr>)
       else if tk s = 124 then
         (if peek (p s) = 124 then s\<lparr>p := tl (p s), tk := Lor\<rparr> else s\<lparr>tk := Or\<rparr>)
       else if tk s = 38 then
         (if peek (p s) = 38 then s\<lparr>p := tl (p s), tk := Lan\<rparr> else s\<lparr>tk := And\<rparr>)
       else if tk s = 94 then s\<lparr>tk := Xor\<rparr>
       else if tk s = 37 then s\<lparr>tk := Mod\<rparr>
       else if tk s = 42 then s\<lparr>tk := Mul\<rparr>
       else if tk s = 91 then s\<lparr>tk := Brak\<rparr>
       else if tk s = 63 then s\<lparr>tk := Cond\<rparr>
       else if tk s = 126 \<or> tk s = 59 \<or> tk s = 123 \<or> tk s = 125 \<or> tk s = 40 \<or>
               tk s = 41 \<or> tk s = 93 \<or> tk s = 44 \<or> tk s = 58 then s
       else next' s)"
      unfolding s_def by (subst next'.simps) (simp only: False if_False Let_def)
    have r1: "tk s = 10 \<Longrightarrow> lexed c K s0 (next' (newline s))"
      by (rule via [OF 1(1) [OF False s_def]]) (simp_all add: base_same [OF bs])
    have r2: "tk s \<noteq> 10 \<Longrightarrow> tk s = 35 \<Longrightarrow> lexed c K s0 (next' (s\<lparr>p := skip_line (p s)\<rparr>))"
      by (rule via [OF 1(2) [OF False s_def]]) (simp_all add: base_same [OF bs])
    have r3: "tk s \<noteq> 10 \<Longrightarrow> tk s \<noteq> 35 \<Longrightarrow> \<not> is_letter (tk s) \<Longrightarrow> \<not> (48 <=s tk s \<and> tk s <=s 57) \<Longrightarrow> tk s = 47
        \<Longrightarrow> peek (p s) = 47 \<Longrightarrow> lexed c K s0 (next' (s\<lparr>p := skip_line (tl (p s))\<rparr>))"
      by (rule via [OF 1(3) [OF False s_def]]) (simp_all add: base_same [OF bs])
    have r4: "lexed c K s0 (next' s)"
      if "tk s \<noteq> 10" "tk s \<noteq> 35" "\<not> is_letter (tk s)" "\<not> (48 <=s tk s \<and> tk s <=s 57)" "tk s \<noteq> 47"
         "\<not> (tk s = 39 \<or> tk s = 34)" "tk s \<noteq> 61" "tk s \<noteq> 43" "tk s \<noteq> 45" "tk s \<noteq> 33" "tk s \<noteq> 60"
         "tk s \<noteq> 62" "tk s \<noteq> 124" "tk s \<noteq> 38" "tk s \<noteq> 94" "tk s \<noteq> 37" "tk s \<noteq> 42" "tk s \<noteq> 91"
         "tk s \<noteq> 63" "\<not> (tk s = 126 \<or> tk s = 59 \<or> tk s = 123 \<or> tk s = 125 \<or> tk s = 40 \<or>
               tk s = 41 \<or> tk s = 93 \<or> tk s = 44 \<or> tk s = 58)"
      by (rule via [OF 1(4) [OF False s_def that]]) (simp_all add: bs)
    have ifI: "(b \<Longrightarrow> lexed c K s0 x) \<Longrightarrow> (\<not> b \<Longrightarrow> lexed c K s0 y) \<Longrightarrow> lexed c K s0 (if b then x else y)" for b x y
      by simp
    show ?thesis
      unfolding nx
      by (intro ifI) (auto simp add: r1 r2 r3 r4 id intro!: same)
  qed
qed


lemma good_next: "good c K s \<Longrightarrow> good c K (next' s)"
  using next_lexed [of c K s] by (simp add: good_def lexed_def)

definition keeps :: "cell \<Rightarrow> (cell \<times> cell \<times> string) list \<Rightarrow> ('a \<Rightarrow> cstate) \<Rightarrow> 'a res \<Rightarrow> bool" where
  "keeps c K g r \<longleftrightarrow> (case r of Cont x \<Rightarrow> good c K (g x) | _ \<Rightarrow> True)"

lemma keeps_Cont1: "good c K x \<Longrightarrow> keeps c K (\<lambda>x. x) (Cont x)"
  and keeps_Cont2: "good c K x \<Longrightarrow> keeps c K snd (Cont (a, x))"
  and keeps_Cont3: "good c K x \<Longrightarrow> keeps c K (\<lambda>y. snd (snd y)) (Cont (a, b, x))"
  and keeps_Exit: "keeps c K g (Exit s)"
  and keeps_OutOfFuel: "keeps c K g OutOfFuel"
  and keeps_fail: "keeps c K g (fail m s)"
  by (simp_all add: keeps_def fail_def)

lemma keeps_andthen1:
  "keeps c K (\<lambda>x. x) r \<Longrightarrow> (\<And>x. good c K x \<Longrightarrow> keeps c K g' (f x)) \<Longrightarrow> keeps c K g' (andthen r f)"
  by (cases r) (simp_all add: keeps_def)

lemma keeps_andthen2:
  "keeps c K snd r \<Longrightarrow> (\<And>a x. good c K x \<Longrightarrow> keeps c K g' (f (a, x))) \<Longrightarrow> keeps c K g' (andthen r f)"
  by (cases r) (auto simp: keeps_def)

lemma keeps_andthen3:
  "keeps c K (\<lambda>y. snd (snd y)) r \<Longrightarrow> (\<And>a b x. good c K x \<Longrightarrow> keeps c K g' (f (a, b, x)))
     \<Longrightarrow> keeps c K g' (andthen r f)"
  by (cases r) (auto simp: keeps_def)

lemma keeps_if:
  "(b \<Longrightarrow> keeps c K g x) \<Longrightarrow> (\<not> b \<Longrightarrow> keeps c K g y) \<Longrightarrow> keeps c K g (if b then x else y)"
  by simp

lemma keeps_let: "keeps c K g (f x) \<Longrightarrow> keeps c K g (Let x f)"
  by simp

lemma keeps_prod: "keeps c K g (f a b) \<Longrightarrow> keeps c K g (case_prod f (a, b))"
  by simp

lemmas keeps_intros = keeps_Cont1 keeps_Cont2 keeps_Cont3 keeps_Exit keeps_OutOfFuel keeps_fail
  keeps_andthen1 keeps_andthen2 keeps_andthen3 keeps_if keeps_let keeps_prod

lemma good_simps [simp]:
  "good c K (emits xs s) = good c K s"
  "good c K (patch k x s) = good c K s"
  "good c K (e_inc s) = good c K s"
  "good c K (e_dec s) = good c K s"
  "good c K (set_last x s) = good c K s"
  "good c K (printf m as s) = good c K s"
  "good c K (s\<lparr>ty := t\<rparr>) = good c K s"
  "good c K (s\<lparr>data := y\<rparr>) = good c K s"
  "good c K (s\<lparr>loc := l\<rparr>) = good c K s"
  "good c K (s\<lparr>line := l\<rparr>) = good c K s"
  by (simp_all add: good_def base_def id_ok_def emits_def patch_def e_inc_def e_dec_def set_last_def printf_def)

lemma keeps_expect: "good c K s \<Longrightarrow> keeps c K (\<lambda>x. x) (expect x m s)"
  by (simp add: expect_def keeps_intros good_next)

lemma keeps_skip_strings: "good c K s \<Longrightarrow> keeps c K (\<lambda>x. x) (skip_strings n s)"
  by (induction n s rule: skip_strings.induct) (simp_all add: keeps_intros good_next)

lemma keeps_stars: "good c K s \<Longrightarrow> keeps c K snd (stars n t s)"
  by (induction n t s rule: stars.induct) (simp_all add: keeps_intros good_next)

lemma keeps_pre_incdec: "good c K s \<Longrightarrow> keeps c K (\<lambda>x. x) (pre_incdec t s)"
  unfolding pre_incdec_def by (intro keeps_intros) simp_all

lemma keeps_post_incdec: "good c K s \<Longrightarrow> keeps c K (\<lambda>x. x) (post_incdec s)"
  unfolding post_incdec_def by (intro keeps_intros) (simp_all add: good_next)

lemma good_sub_emit: "good c K (sub_emit t s) = good c K s"
  by (simp add: sub_emit_def)

lemma keeps_call_emit: "good c K s \<Longrightarrow> keeps c K (\<lambda>x. x) (call_emit d t s)"
  unfolding call_emit_def by (intro keeps_intros) simp_all

lemma keeps_var_emit: "good c K s \<Longrightarrow> keeps c K (\<lambda>x. x) (var_emit d s)"
  unfolding var_emit_def by (intro keeps_intros) simp_all

lemma keeps_expr_prefix:
  assumes ex: "\<And>lev s. good c K s \<Longrightarrow> keeps c K (\<lambda>x. x) (ex lev s)"
    and ca: "\<And>t s. good c K s \<Longrightarrow> keeps c K snd (ca t s)"
    and g: "good c K s"
  shows "keeps c K (\<lambda>x. x) (expr_prefix n ex ca s)"
  unfolding expr_prefix_def
  using g
  by (intro keeps_intros ex ca keeps_expect keeps_skip_strings keeps_stars keeps_pre_incdec
        keeps_call_emit keeps_var_emit)
     (simp_all add: good_next)

lemma keeps_infix_step:
  assumes ex: "\<And>lev s. good c K s \<Longrightarrow> keeps c K (\<lambda>x. x) (ex lev s)"
    and g: "good c K s"
  shows "keeps c K (\<lambda>x. x) (infix_step ex s)"
  unfolding infix_step_def
  using g
  by (intro keeps_intros ex keeps_expect keeps_post_incdec)
     (simp_all add: good_next good_sub_emit)


lemma keeps_expr_all:
  "(\<forall>lev s. good c K s \<longrightarrow> keeps c K (\<lambda>x. x) (expr n lev s)) \<and>
   (\<forall>t s. good c K s \<longrightarrow> keeps c K snd (call_args n t s)) \<and>
   (\<forall>lev s. good c K s \<longrightarrow> keeps c K (\<lambda>x. x) (infix_loop n lev s))"
proof (induction n)
  case 0
  show ?case by (simp add: keeps_OutOfFuel)
next
  case (Suc n)
  from Suc have ex: "\<And>lev s. good c K s \<Longrightarrow> keeps c K (\<lambda>x. x) (expr n lev s)"
    and ca: "\<And>t s. good c K s \<Longrightarrow> keeps c K snd (call_args n t s)"
    and il: "\<And>lev s. good c K s \<Longrightarrow> keeps c K (\<lambda>x. x) (infix_loop n lev s)"
    by simp_all
  have 1: "keeps c K (\<lambda>x. x) (expr (Suc n) lev s)" if g: "good c K s" for lev s
    unfolding expr.simps
    by (intro keeps_andthen1 keeps_expr_prefix ex ca il g)
  have 2: "keeps c K snd (call_args (Suc n) t s)" if g: "good c K s" for t s
    unfolding call_args.simps using g
    by (intro keeps_intros ex ca) (simp_all add: good_next)
  have 3: "keeps c K (\<lambda>x. x) (infix_loop (Suc n) lev s)" if g: "good c K s" for lev s
    unfolding infix_loop.simps using g
    by (intro keeps_intros keeps_infix_step ex il) simp_all
  from 1 2 3 show ?case by simp
qed

lemma keeps_expr: "good c K s \<Longrightarrow> keeps c K (\<lambda>x. x) (expr n lev s)"
  using keeps_expr_all [of c K n] by simp

lemma keeps_stmt_body:
  assumes st: "\<And>s. good c K s \<Longrightarrow> keeps c K (\<lambda>x. x) (st s)"
    and bl: "\<And>s. good c K s \<Longrightarrow> keeps c K (\<lambda>x. x) (bl s)"
    and ex: "\<And>lev s. good c K s \<Longrightarrow> keeps c K (\<lambda>x. x) (ex lev s)"
    and g: "good c K s"
  shows "keeps c K (\<lambda>x. x) (stmt_body st bl ex s)"
  unfolding stmt_body_def using g
  by (intro keeps_intros st bl ex keeps_expect) (simp_all add: good_next)

lemma keeps_stmt_all:
  "(\<forall>s. good c K s \<longrightarrow> keeps c K (\<lambda>x. x) (stmt n s)) \<and> (\<forall>s. good c K s \<longrightarrow> keeps c K (\<lambda>x. x) (block n s))"
proof (induction n)
  case 0
  show ?case by (simp add: keeps_OutOfFuel)
next
  case (Suc n)
  from Suc have st: "\<And>s. good c K s \<Longrightarrow> keeps c K (\<lambda>x. x) (stmt n s)"
    and bl: "\<And>s. good c K s \<Longrightarrow> keeps c K (\<lambda>x. x) (block n s)"
    by simp_all
  have 1: "keeps c K (\<lambda>x. x) (stmt (Suc n) s)" if g: "good c K s" for s
    unfolding stmt.simps
    by (intro keeps_stmt_body st bl keeps_expr g)
  have 2: "keeps c K (\<lambda>x. x) (block (Suc n) s)" if g: "good c K s" for s
    unfolding block.simps using g
    by (intro keeps_intros st bl) simp_all
  from 1 2 show ?case by simp
qed

lemma keeps_block: "good c K s \<Longrightarrow> keeps c K (\<lambda>x. x) (block n s)"
  using keeps_stmt_all [of c K n] by simp

lemma block_tk: "block n s = Cont s' \<Longrightarrow> tk s' = 125"
proof (induction n arbitrary: s)
  case 0
  then show ?case by simp
next
  case (Suc n)
  show ?case
  proof (cases "tk s \<noteq> 125")
    case True
    with Suc.prems obtain s1 where "block n s1 = Cont s'"
      by (cases "stmt n s") auto
    then show ?thesis by (rule Suc.IH)
  next
    case False
    with Suc.prems show ?thesis by simp
  qed
qed


definition good_id :: "cell \<Rightarrow> (cell \<times> cell \<times> string) list \<Rightarrow> cstate \<Rightarrow> bool" where
  "good_id c K s \<longleftrightarrow> base c K s \<and> id_ok s"

lemma gi_good: "good_id c K s \<Longrightarrow> good c K s"
  by (simp add: good_id_def good_def)

lemma good_gi: "good c K s \<Longrightarrow> tk s = Id' \<Longrightarrow> good_id c K s"
  by (simp add: good_id_def good_def)

lemma gi_next: "good_id c K s \<Longrightarrow> good_id c K (next' s)"
  using next_lexed [of c K s] by (simp add: good_id_def lexed_def good_def)

definition keyfix :: "(symrec \<Rightarrow> symrec) \<Rightarrow> bool" where
  "keyfix f \<longleftrightarrow> (\<forall>r. Tk (f r) = Tk r \<and> Hash (f r) = Hash r \<and> Name (f r) = Name r \<and> HClass (f r) = HClass r)"

lemma keys_update: "i < length tab \<Longrightarrow> Tk x = Tk (tab ! i) \<Longrightarrow> Hash x = Hash (tab ! i) \<Longrightarrow> Name x = Name (tab ! i)
   \<Longrightarrow> keys (tab[i := x]) = keys tab"
  by (simp add: keys_def list_eq_iff_nth_eq nth_list_update)

lemma tab_ok_update: "tab_ok tab \<Longrightarrow> Tk x \<noteq> 0 \<Longrightarrow> HClass x \<noteq> Loc \<Longrightarrow> tab_ok (tab[i := x])"
  by (auto simp: tab_ok_def list_all_iff dest!: subsetD [OF set_update_subset_insert])

lemma tab_ok_nth: "tab_ok tab \<Longrightarrow> i < length tab \<Longrightarrow> Tk (tab ! i) \<noteq> 0 \<and> HClass (tab ! i) \<noteq> Loc"
  by (simp add: tab_ok_def list_all_length)

lemma gi_upd_general:
  assumes "good_id c K s"
    and "Tk (f (sym s ! id' s)) = Tk (sym s ! id' s)" "Hash (f (sym s ! id' s)) = Hash (sym s ! id' s)"
        "Name (f (sym s ! id' s)) = Name (sym s ! id' s)" "HClass (f (sym s ! id' s)) \<noteq> Loc"
  shows "good_id c K (id_upd f s)"
proof -
  from assms(1) have b: "src s = c" "tab_ok (sym s)" "take (length K) (keys (sym s)) = K" and i: "id' s < length (sym s)"
    by (simp_all add: good_id_def base_def id_ok_def)
  from tab_ok_nth [OF b(2) i] assms(2) have t: "Tk (f (sym s ! id' s)) \<noteq> 0" by simp
  show ?thesis
    using b i tab_ok_update [OF b(2) t assms(5), of "id' s"] keys_update [OF i assms(2,3,4)]
    by (simp add: good_id_def base_def id_ok_def id_upd_def sym_upd_inside)
qed

lemma gi_upd: "good_id c K s \<Longrightarrow> keyfix f \<Longrightarrow> good_id c K (id_upd f s)"
proof -
  assume g: "good_id c K s" and k: "keyfix f"
  then have "id' s < length (sym s)" "tab_ok (sym s)" by (simp_all add: good_id_def id_ok_def base_def)
  from tab_ok_nth [OF this(2,1)] have "HClass (sym s ! id' s) \<noteq> Loc" by simp
  with k show ?thesis by (intro gi_upd_general [OF g]) (simp_all add: keyfix_def)
qed

lemma gi_shadow: "good_id c K s \<Longrightarrow> Class (rec_at s (id' s)) \<noteq> Loc \<Longrightarrow> good_id c K (id_upd (shadow t v) s)"
proof -
  assume g: "good_id c K s" and k: "Class (rec_at s (id' s)) \<noteq> Loc"
  then have "id' s < length (sym s)" by (simp add: good_id_def id_ok_def)
  with k show ?thesis by (intro gi_upd_general [OF g]) (simp_all add: shadow_def rec_at_def sym_at_def)
qed

lemma keyfix_simps [simp]:
  "keyfix (\<lambda>r. r\<lparr>Class := a, Type := b, Val := v\<rparr>)"
  "keyfix (\<lambda>r. r\<lparr>Type := b\<rparr>)"
  "keyfix (\<lambda>r. r\<lparr>Class := a, Val := v\<rparr>)"
  by (simp_all add: keyfix_def)

lemma gi_simps [simp]:
  "good_id c K (emits xs s) = good_id c K s"
  "good_id c K (s\<lparr>loc := l\<rparr>) = good_id c K s"
  "good_id c K (s\<lparr>data := y\<rparr>) = good_id c K s"
  by (simp_all add: good_id_def base_def id_ok_def emits_def)

lemma andthenE:
  "andthen r f = Cont y \<Longrightarrow> (\<And>x. r = Cont x \<Longrightarrow> f x = Cont y \<Longrightarrow> P) \<Longrightarrow> P"
  by (cases r) auto

lemma keepsD: "keeps c K g r \<Longrightarrow> r = Cont x \<Longrightarrow> good c K (g x)"
  by (simp add: keeps_def)

lemma fail_Cont [simp]: "fail m s \<noteq> Cont x"
  by (simp add: fail_def)

lemma enum_loop_good: "good c K s \<Longrightarrow> enum_loop n i s = Cont s' \<Longrightarrow> good c K s'"
proof (induction n arbitrary: i s)
  case 0
  then show ?case by simp
next
  case (Suc n)
  show ?case
  proof (cases "tk s \<noteq> 125")
    case False
    with Suc.prems show ?thesis by simp
  next
    case True
    with Suc.prems have id: "tk s = Id'" by (auto split: if_splits)
    with Suc.prems(1) have g0: "good_id c K s" by (rule good_gi)
    define s1 where "s1 = next' s"
    have g1: "good_id c K s1" unfolding s1_def using g0 by (rule gi_next)
    obtain i2 s2 where a: "(if tk s1 = Assign then
                (let s = next' s1 in
                 if tk s \<noteq> Num then fail ''%d: bad enum initializer\<newline>'' s
                 else Cont (ival s, next' s))
              else Cont (i, s1)) = Cont (i2, s2)"
       and b: "enum_loop n (i2 + 1)
                 (if tk (id_upd (\<lambda>r. r\<lparr>Class := Num, Type := INT', Val := i2\<rparr>) s2) = 44
                  then next' (id_upd (\<lambda>r. r\<lparr>Class := Num, Type := INT', Val := i2\<rparr>) s2)
                  else id_upd (\<lambda>r. r\<lparr>Class := Num, Type := INT', Val := i2\<rparr>) s2) = Cont s'"
      using Suc.prems(2) True id
      by (auto simp: Let_def s1_def elim!: andthenE split: if_splits)
    from a g1 have g2: "good_id c K s2"
      by (auto simp: Let_def gi_next split: if_splits)
    have g3: "good_id c K (id_upd (\<lambda>r. r\<lparr>Class := Num, Type := INT', Val := i2\<rparr>) s2)"
      using g2 by (rule gi_upd) simp
    show ?thesis
      by (rule Suc.IH [OF _ b]) (simp add: gi_good g3 gi_next)
  qed
qed


lemma stars_good: "good c K s \<Longrightarrow> stars n t s = Cont (t', s') \<Longrightarrow> good c K s'"
  using keepsD [OF keeps_stars, of c K s n t "(t', s')"] by simp

lemma params_good: "good c K s \<Longrightarrow> params n i s = Cont (i', s') \<Longrightarrow> good c K s'"
proof (induction n arbitrary: i s)
  case 0
  then show ?case by simp
next
  case (Suc n)
  show ?case
  proof (cases "tk s \<noteq> 41")
    case False
    with Suc.prems show ?thesis by simp
  next
    case True
    define ts where "ts = (if tk s = Int' then (INT', next' s)
                  else if tk s = Char' then (CHAR', next' s)
                  else (INT', s))"
    have g0: "good c K (snd ts)" using Suc.prems(1) by (simp add: ts_def good_next)
    obtain t s1 where st: "stars n (fst ts) (snd ts) = Cont (t, s1)"
      and rest: "(if tk s1 \<noteq> Id' then fail ''%d: bad parameter declaration\<newline>'' s1
             else if Class (rec_at s1 (id' s1)) = Loc
               then fail ''%d: duplicate parameter definition\<newline>'' s1
             else
               (let s = next' (id_upd (shadow t i) s1)
                in params n (i + 1) (if tk s = 44 then next' s else s))) = Cont (i', s')"
      using Suc.prems(2) True unfolding params.simps ts_def [symmetric]
      by (auto simp: Let_def elim!: andthenE)
    from stars_good [OF g0 st] have g1: "good c K s1" .
    from rest have id: "tk s1 = Id'" and cl: "Class (rec_at s1 (id' s1)) \<noteq> Loc"
      by (auto split: if_splits)
    define s2 where "s2 = next' (id_upd (shadow t i) s1)"
    have g2: "good_id c K s2"
      unfolding s2_def by (intro gi_next gi_shadow good_gi g1 id cl)
    from rest id cl have r: "params n (i + 1) (if tk s2 = 44 then next' s2 else s2) = Cont (i', s')"
      by (auto simp: Let_def s2_def split: if_splits)
    show ?thesis
      by (rule Suc.IH [OF _ r]) (simp add: gi_good g2 gi_next)
  qed
qed

lemma local_decl_good: "good c K s \<Longrightarrow> local_decl n bt i s = Cont (i', s') \<Longrightarrow> good c K s'"
proof (induction n arbitrary: i s)
  case 0
  then show ?case by simp
next
  case (Suc n)
  show ?case
  proof (cases "tk s \<noteq> 59")
    case False
    with Suc.prems show ?thesis by simp
  next
    case True
    obtain t s1 where st: "stars n bt s = Cont (t, s1)"
      and rest: "(if tk s1 \<noteq> Id' then fail ''%d: bad local declaration\<newline>'' s1
         else if Class (rec_at s1 (id' s1)) = Loc
           then fail ''%d: duplicate local definition\<newline>'' s1
         else
           (let s = next' (id_upd (shadow t (i + 1)) s1)
            in local_decl n bt (i + 1) (if tk s = 44 then next' s else s))) = Cont (i', s')"
      using Suc.prems(2) True
      by (auto simp: Let_def elim!: andthenE)
    from stars_good [OF Suc.prems(1) st] have g1: "good c K s1" .
    from rest have id: "tk s1 = Id'" and cl: "Class (rec_at s1 (id' s1)) \<noteq> Loc"
      by (auto split: if_splits)
    define s2 where "s2 = next' (id_upd (shadow t (i + 1)) s1)"
    have g2: "good_id c K s2"
      unfolding s2_def by (intro gi_next gi_shadow good_gi g1 id cl)
    from rest id cl have r: "local_decl n bt (i + 1) (if tk s2 = 44 then next' s2 else s2) = Cont (i', s')"
      by (auto simp: Let_def s2_def split: if_splits)
    show ?thesis
      by (rule Suc.IH [OF _ r]) (simp add: gi_good g2 gi_next)
  qed
qed

lemma locals_good: "good c K s \<Longrightarrow> locals n bt i s = Cont (bt', i', s') \<Longrightarrow> good c K s'"
proof (induction n arbitrary: bt i s)
  case 0
  then show ?case by simp
next
  case (Suc n)
  show ?case
  proof (cases "tk s = Int' \<or> tk s = Char'")
    case False
    with Suc.prems show ?thesis by simp
  next
    case True
    define b where "b = (if tk s = Int' then INT' else CHAR')"
    obtain i1 s1 where ld: "local_decl n b i (next' s) = Cont (i1, s1)"
      and r: "locals n b i1 (next' s1) = Cont (bt', i', s')"
      using Suc.prems(2) True
      by (auto simp: Let_def b_def elim!: andthenE)
    from local_decl_good [OF good_next [OF Suc.prems(1)] ld] have "good c K s1" .
    from Suc.IH [OF good_next [OF this] r] show ?thesis .
  qed
qed

lemma unwind_walk_map:
  "tab_ok tab \<Longrightarrow> unwind_walk tab = map (\<lambda>r. if Class r = Loc then restore r else r) tab"
  by (induction tab) (simp_all add: tab_ok_def)

lemma takeWhile_tab_ok: "tab_ok tab \<Longrightarrow> takeWhile (\<lambda>r. Tk r \<noteq> 0) tab = tab"
  by (induction tab) (simp_all add: tab_ok_def)

lemma unwind_base:
  assumes "base c K s"
  shows "base c K (unwind s)"
    and "list_all (\<lambda>r. Class r \<noteq> Loc) (sym (unwind s))"
    and "sym (unwind s) = map (\<lambda>r. if Class r = Loc then restore r else r) (sym s)"
    and "tk (unwind s) = tk s"
proof -
  from assms have t: "tab_ok (sym s)" and k: "take (length K) (keys (sym s)) = K" and c: "src s = c"
    by (simp_all add: base_def)
  show m: "sym (unwind s) = map (\<lambda>r. if Class r = Loc then restore r else r) (sym s)"
    by (simp add: unwind_def unwind_walk_map [OF t])
  have k': "keys (map (\<lambda>r. if Class r = Loc then restore r else r) (sym s)) = keys (sym s)"
    by (simp add: keys_def restore_def)
  have t': "tab_ok (map (\<lambda>r. if Class r = Loc then restore r else r) (sym s))"
    using t by (induction "sym s") (auto simp: tab_ok_def restore_def list_all_iff)
  show "base c K (unwind s)"
    using c k k' t' by (simp add: base_def m) (simp add: unwind_def)
  show "list_all (\<lambda>r. Class r \<noteq> Loc) (sym (unwind s))"
    unfolding m using t by (auto simp: tab_ok_def restore_def list_all_iff)
  show "tk (unwind s) = tk s" by (simp add: unwind_def)
qed

lemma block_good: "good c K s \<Longrightarrow> block n s = Cont s' \<Longrightarrow> good c K s'"
  using keepsD [OF keeps_block, of c K s n s'] by simp

lemma function_def_good:
  assumes g: "good_id c K s" and f: "function_def n bt s = Cont (bt', s')"
  shows "good c K s' \<and> list_all (\<lambda>r. Class r \<noteq> Loc) (sym s') \<and>
         (\<exists>s1. base c K s1 \<and> s' = unwind s1)"
proof -
  define s1 where "s1 = id_upd (\<lambda>r. r\<lparr>Class := Fun, Val := e_plus s 1\<rparr>) s"
  have g1: "good_id c K s1" unfolding s1_def using g by (rule gi_upd) simp
  obtain i s2 where pa: "params n 0 (next' s1) = Cont (i, s2)"
    and r2: "(let s = next' s2 in
        if tk s \<noteq> 123 then fail ''%d: bad function definition\<newline>'' s
        else
          (let i = i + 1; s = s\<lparr>loc := i\<rparr> in
           andthen (locals n bt i (next' s)) (\<lambda>(bt, i, s).
           andthen (block n (emits [ENT, i - loc s] s)) (\<lambda>s.
             Cont (bt, unwind (emits [LEV] s)))))) = Cont (bt', s')"
    using f unfolding function_def_def s1_def [symmetric]
    by (auto simp: Let_def elim!: andthenE)
  from params_good [OF gi_good [OF gi_next [OF g1]] pa] have g2: "good c K s2" .
  define s3 where "s3 = (next' s2)\<lparr>loc := i + 1\<rparr>"
  have g3: "good c K s3" unfolding s3_def using g2 by (simp add: good_next)
  obtain i4 s4 s5 where lo: "locals n bt (i + 1) (next' s3) = Cont (bt', i4, s4)"
    and bl: "block n (emits [ENT, i4 - loc s4] s4) = Cont s5"
    and e: "s' = unwind (emits [LEV] s5)"
    using r2
    by (auto simp: Let_def s3_def elim!: andthenE split: if_splits)
  from locals_good [OF good_next [OF g3] lo] have g4: "good c K s4" .
  then have "good c K (emits [ENT, i4 - loc s4] s4)" by simp
  from block_good [OF this bl] have g5: "good c K s5" .
  from block_tk [OF bl] have t5: "tk s5 = 125" .
  from g5 have b5: "base c K (emits [LEV] s5)" by (simp add: good_def base_def emits_def)
  from unwind_base [OF b5] t5 have "good c K s' \<and> list_all (\<lambda>r. Class r \<noteq> Loc) (sym s')"
    by (simp add: e good_def emits_def)
  with b5 e show ?thesis by blast
qed

lemma declarators_good: "good c K s \<Longrightarrow> declarators n bt s = Cont s' \<Longrightarrow> good c K s'"
proof (induction n arbitrary: bt s)
  case 0
  then show ?case by simp
next
  case (Suc n)
  show ?case
  proof (cases "tk s \<noteq> 59 \<and> tk s \<noteq> 125")
    case False
    with Suc.prems show ?thesis by auto
  next
    case True
    obtain t s1 where st: "stars n bt s = Cont (t, s1)"
      and rest: "(if tk s1 \<noteq> Id' then fail ''%d: bad global declaration\<newline>'' s1
         else if Class (rec_at s1 (id' s1)) \<noteq> 0 then fail ''%d: duplicate global definition\<newline>'' s1
         else
           (let s = next' s1; s = id_upd (\<lambda>r. r\<lparr>Type := t\<rparr>) s in
            andthen
              (if tk s = 40 then function_def n bt s
               else Cont (bt, (id_upd (\<lambda>r. r\<lparr>Class := Glo, Val := data s\<rparr>) s)
                                \<lparr>data := data s + sizeof_int\<rparr>))
              (\<lambda>(bt, s). declarators n bt (if tk s = 44 then next' s else s)))) = Cont s'"
      using Suc.prems(2) True
      by (auto simp: Let_def elim!: andthenE)
    from stars_good [OF Suc.prems(1) st] have g1: "good c K s1" .
    from rest have id: "tk s1 = Id'" by (auto split: if_splits)
    define s2 where "s2 = id_upd (\<lambda>r. r\<lparr>Type := t\<rparr>) (next' s1)"
    have g2: "good_id c K s2"
      unfolding s2_def by (intro gi_upd gi_next good_gi g1 id) simp
    obtain b3 s3 where a: "(if tk s2 = 40 then function_def n bt s2
               else Cont (bt, (id_upd (\<lambda>r. r\<lparr>Class := Glo, Val := data s2\<rparr>) s2)
                                \<lparr>data := data s2 + sizeof_int\<rparr>)) = Cont (b3, s3)"
      and r: "declarators n b3 (if tk s3 = 44 then next' s3 else s3) = Cont s'"
      using rest id
      by (auto simp: Let_def s2_def elim!: andthenE split: if_splits)
    have g3: "good c K s3"
    proof (cases "tk s2 = 40")
      case True
      with a function_def_good [OF g2] show ?thesis by auto
    next
      case False
      have "good_id c K (id_upd (\<lambda>r. r\<lparr>Class := Glo, Val := data s2\<rparr>) s2)"
        using g2 by (rule gi_upd) simp
      with a False show ?thesis by (auto simp: gi_good)
    qed
    show ?thesis
      by (rule Suc.IH [OF _ r]) (simp add: g3 good_next)
  qed
qed

lemma base_type_good: "good c K s \<Longrightarrow> base_type n s = Cont (bt, s') \<Longrightarrow> good c K s'"
proof -
  assume g: "good c K s" and b: "base_type n s = Cont (bt, s')"
  show ?thesis
  proof (cases "tk s = Enum")
    case False
    with g b show ?thesis by (auto simp: base_type_def good_next split: if_splits)
  next
    case True
    define s1 where "s1 = (if tk (next' s) \<noteq> 123 then next' (next' s) else next' s)"
    have g1: "good c K s1" using g by (simp add: s1_def good_next)
    show ?thesis
    proof (cases "tk s1 = 123")
      case False
      with b True g1 show ?thesis by (simp add: base_type_def Let_def s1_def [symmetric])
    next
      case t: True
      with b True obtain s2 where e: "enum_loop n 0 (next' s1) = Cont s2" and s': "s' = next' s2"
        by (auto simp: base_type_def Let_def s1_def [symmetric] elim!: andthenE)
      from enum_loop_good [OF good_next [OF g1] e] show ?thesis by (simp add: s' good_next)
    qed
  qed
qed

lemma declarations_good: "good c K s \<Longrightarrow> declarations n s = Cont s' \<Longrightarrow> good c K s'"
proof (induction n arbitrary: s)
  case 0
  then show ?case by simp
next
  case (Suc n)
  show ?case
  proof (cases "tk s \<noteq> 0")
    case False
    with Suc.prems show ?thesis by simp
  next
    case True
    with Suc.prems(2) obtain bt s1 s2 where b: "base_type n s = Cont (bt, s1)"
      and d: "declarators n bt s1 = Cont s2" and r: "declarations n (next' s2) = Cont s'"
      by (auto elim!: andthenE)
    from declarators_good [OF base_type_good [OF Suc.prems(1) b] d] have "good c K s2" .
    from Suc.IH [OF good_next [OF this] r] show ?thesis .
  qed
qed

subsection \<open>The table after seeding\<close>

text \<open>
  The nineteen records that lines 476-489 leave in the table, each name a pointer into
  the string of keywords.
\<close>

definition seeded_sym :: "symrec list" where
  "seeded_sym =
     [\<lparr>Tk = 134, Hash = 20271199108, Name = drop 0 keyword_text, Class = 0, Type = 0, Val = 0, HClass = 0, HType = 0, HVal = 0\<rparr>,
      \<lparr>Tk = 135, Hash = 20683494468, Name = drop 5 keyword_text, Class = 0, Type = 0, Val = 0, HClass = 0, HType = 0, HVal = 0\<rparr>,
      \<lparr>Tk = 136, Hash = 20686279748, Name = drop 10 keyword_text, Class = 0, Type = 0, Val = 0, HClass = 0, HType = 0, HVal = 0\<rparr>,
      \<lparr>Tk = 137, Hash = 994370, Name = drop 15 keyword_text, Class = 0, Type = 0, Val = 0, HClass = 0, HType = 0, HVal = 0\<rparr>,
      \<lparr>Tk = 138, Hash = 146254787, Name = drop 18 keyword_text, Class = 0, Type = 0, Val = 0, HClass = 0, HType = 0, HVal = 0\<rparr>,
      \<lparr>Tk = 139, Hash = 503850381220358, Name = drop 22 keyword_text, Class = 0, Type = 0, Val = 0, HClass = 0, HType = 0, HVal = 0\<rparr>,
      \<lparr>Tk = 140, Hash = 508364172834822, Name = drop 29 keyword_text, Class = 0, Type = 0, Val = 0, HClass = 0, HType = 0, HVal = 0\<rparr>,
      \<lparr>Tk = 141, Hash = 3577571849797, Name = drop 36 keyword_text, Class = 0, Type = 0, Val = 0, HClass = 0, HType = 0, HVal = 0\<rparr>,
      \<lparr>Tk = 133, Hash = 22721869956, Name = drop 42 keyword_text, Class = 130, Type = 1, Val = 30, HClass = 0, HType = 0, HVal = 0\<rparr>,
      \<lparr>Tk = 133, Hash = 23316511364, Name = drop 47 keyword_text, Class = 130, Type = 1, Val = 31, HClass = 0, HType = 0, HVal = 0\<rparr>,
      \<lparr>Tk = 133, Hash = 2980698835717, Name = drop 52 keyword_text, Class = 130, Type = 1, Val = 32, HClass = 0, HType = 0, HVal = 0\<rparr>,
      \<lparr>Tk = 133, Hash = 495450526609734, Name = drop 58 keyword_text, Class = 130, Type = 1, Val = 33, HClass = 0, HType = 0, HVal = 0\<rparr>,
      \<lparr>Tk = 133, Hash = 481763928089094, Name = drop 65 keyword_text, Class = 130, Type = 1, Val = 34, HClass = 0, HType = 0, HVal = 0\<rparr>,
      \<lparr>Tk = 133, Hash = 20894958084, Name = drop 72 keyword_text, Class = 130, Type = 1, Val = 35, HClass = 0, HType = 0, HVal = 0\<rparr>,
      \<lparr>Tk = 133, Hash = 481883679887942, Name = drop 77 keyword_text, Class = 130, Type = 1, Val = 36, HClass = 0, HType = 0, HVal = 0\<rparr>,
      \<lparr>Tk = 133, Hash = 481883657835334, Name = drop 84 keyword_text, Class = 130, Type = 1, Val = 37, HClass = 0, HType = 0, HVal = 0\<rparr>,
      \<lparr>Tk = 133, Hash = 20699997060, Name = drop 91 keyword_text, Class = 130, Type = 1, Val = 38, HClass = 0, HType = 0, HVal = 0\<rparr>,
      \<lparr>Tk = 134, Hash = 24143606276, Name = drop 96 keyword_text, Class = 0, Type = 0, Val = 0, HClass = 0, HType = 0, HVal = 0\<rparr>,
      \<lparr>Tk = 133, Hash = 22294568004, Name = drop 101 keyword_text, Class = 0, Type = 0, Val = 0, HClass = 0, HType = 0, HVal = 0\<rparr>]"

definition seeded_state :: "env \<Rightarrow> cell \<Rightarrow> cell \<Rightarrow> cstate" where
  "seeded_state en sf df = (init_state en sf df)\<lparr>p := [], id' := 18, sym := seeded_sym, tk := Id'\<rparr>"

lemma seeded: "seed (init_state en sf df) = (seeded_state en sf df, 18)"
  by code_simp

lemma seeded_state_fields:
  "src (seeded_state en sf df) = sf" "debug (seeded_state en sf df) = df"
  "sym (seeded_state en sf df) = seeded_sym" "tk (seeded_state en sf df) = Id'"
  "id' (seeded_state en sf df) = 18" "out (seeded_state en sf df) = []"
  by (simp_all add: seeded_state_def init_state_def)

lemma length_seeded_sym: "length seeded_sym = 19"
  by (simp add: seeded_sym_def)

lemma tab_ok_seeded: "tab_ok seeded_sym"
  by (simp add: seeded_sym_def tab_ok_def)

lemma seeded_good: "good sf (keys seeded_sym) (seeded_state en sf df)"
  by (simp add: good_def base_def id_ok_def seeded_state_fields tab_ok_seeded length_seeded_sym keys_def)

lemma load_Loaded:
  assumes "load en argv = Loaded s0 idmain av cs"
  shows "s0 = (seeded_state en (fst (parse_flags argv)) (fst (snd (parse_flags argv))))
               \<lparr>p := take (unat (rd_ret en)) (rd_bytes en), lp := take (unat (rd_ret en)) (rd_bytes en)\<rparr>"
    and "idmain = 18" and "av = snd (snd (parse_flags argv))"
    and "cs = [Malloc poolsz, Malloc poolsz, Malloc poolsz, Malloc poolsz, Malloc poolsz,
               Read Indeterminate (poolsz - 1), Close Indeterminate]"
  using assms by (auto simp: load_def Let_def seeded split: if_splits)

lemma loaded_good:
  assumes "load en argv = Loaded s0 idmain av cs"
  shows "good (fst (parse_flags argv)) (keys seeded_sym) (next' (s0\<lparr>line := 1\<rparr>))"
proof -
  have "good (fst (parse_flags argv)) (keys seeded_sym) s0"
    using seeded_good [of "fst (parse_flags argv)" en "fst (snd (parse_flags argv))"]
    unfolding load_Loaded(1) [OF assms] by (simp add: good_def base_def id_ok_def)
  then show ?thesis by (simp add: good_next)
qed

subsection \<open>Reading the source\<close>

text \<open>
  The calls that \<^verbatim>\<open>main\<close> itself makes to the host: \<^verbatim>\<open>malloc(poolsz)\<close>, and \<^verbatim>\<open>read\<close> and \<^verbatim>\<open>close\<close> on
  the local \<^verbatim>\<open>fd\<close>, which has no value.
\<close>

definition own_call :: "sysev \<Rightarrow> bool" where
  "own_call ev \<longleftrightarrow> ev = Malloc poolsz \<or> ev = Read Indeterminate (poolsz - 1) \<or> ev = Close Indeterminate"

definition final_calls :: "'w final \<Rightarrow> sysev list" where
  "final_calls r = (case r of Returned x \<Rightarrow> calls x | Trapped x \<Rightarrow> calls x | Unfinished \<Rightarrow> [])"

definition load_calls :: "loaded \<Rightarrow> sysev list" where
  "load_calls l = (case l of Loaded s i av cs \<Rightarrow> cs | Refused ou cs \<Rightarrow> cs)"

lemma main_calls: "final_calls (main en h w fp fv argv) = load_calls (load en argv) \<or> final_calls (main en h w fp fv argv) = []"
  by (auto simp: main_def final_calls_def load_calls_def Let_def split: loaded.splits res.splits option.splits step_res.splits)

lemma load_calls_own: "list_all own_call (load_calls (load en argv))"
  by (simp add: load_def load_calls_def Let_def own_call_def)

text \<open>
  Claim C1. In every run of \<^verbatim>\<open>main\<close>, each call that \<^verbatim>\<open>main\<close> makes to the host is
  \<^verbatim>\<open>malloc(poolsz)\<close>, \<^verbatim>\<open>read(fd, p, poolsz-1)\<close> or \<^verbatim>\<open>close(fd)\<close> with \<^verbatim>\<open>fd\<close> never assigned: there is
  no call of \<^verbatim>\<open>open\<close>. A run that has a file argument and its five pools does make the call
  of \<^verbatim>\<open>read\<close>, and a run that gets to the parser has made exactly five calls of \<^verbatim>\<open>malloc\<close>,
  that \<^verbatim>\<open>read\<close> and that \<^verbatim>\<open>close\<close>.
\<close>

theorem C1_read_without_open:
  "list_all own_call (final_calls (main en h w fp fv argv)) \<and>
   list_all own_call (load_calls (load en argv)) \<and>
   (snd (snd (parse_flags argv)) \<noteq> [] \<and> m_sym en \<noteq> 0 \<and> m_text en \<noteq> 0 \<and> m_data en \<noteq> 0 \<and>
    m_stack en \<noteq> 0 \<and> m_source en \<noteq> 0 \<longrightarrow>
      Read Indeterminate (poolsz - 1) \<in> set (load_calls (load en argv))) \<and>
   (\<forall>s0 idmain av cs. load en argv = Loaded s0 idmain av cs \<longrightarrow>
      cs = [Malloc poolsz, Malloc poolsz, Malloc poolsz, Malloc poolsz, Malloc poolsz,
            Read Indeterminate (poolsz - 1), Close Indeterminate])"
proof -
  have a: "list_all own_call (final_calls (main en h w fp fv argv))"
    using main_calls [of en h w fp fv argv] load_calls_own [of en argv] by auto
  have b: "snd (snd (parse_flags argv)) \<noteq> [] \<and> m_sym en \<noteq> 0 \<and> m_text en \<noteq> 0 \<and> m_data en \<noteq> 0 \<and>
    m_stack en \<noteq> 0 \<and> m_source en \<noteq> 0 \<longrightarrow>
      Read Indeterminate (poolsz - 1) \<in> set (load_calls (load en argv))"
    by (simp add: load_def load_calls_def Let_def)
  from a b load_calls_own [of en argv] load_Loaded(4) show ?thesis by blast
qed

subsection \<open>Listing mode\<close>

text \<open>
  Claim C7. With \<^verbatim>\<open>-s\<close> as the first argument, whenever the source has been read and parses
  without a diagnostic (the parser comes back, and \<^verbatim>\<open>main\<close> has a value, so that
  \<^verbatim>\<open>main() not defined\<close> is not printed either), \<^verbatim>\<open>main\<close> returns 0 and the machine has not
  been started.
\<close>

theorem C7_listing_mode_returns_0:
  assumes "fst (parse_flags argv) = 1"
    and "load en argv = Loaded s0 idmain av cs"
    and "declarations fp (next' (s0\<lparr>line := 1\<rparr>)) = Cont s"
    and "Val (rec_at s idmain) \<noteq> 0"
  shows "main en h w fp fv argv = Returned \<lparr>status = 0, printed = out s, calls = cs, machine = None\<rparr>"
proof -
  from declarations_good [OF loaded_good [OF assms(2)] assms(3)] assms(1)
  have "src s = 1" by (simp add: good_def base_def)
  with assms(2,3,4) show ?thesis by (simp add: main_def Let_def)
qed

subsection \<open>Locals after a function definition\<close>

text \<open>
  Claim C8. In a state where every record touched is in use, no saved class is \<open>Loc\<close>
  and \<^verbatim>\<open>id\<close> points to a record in use (which the parser keeps true: \<open>declarators_good\<close>,
  \<open>declarations_good\<close>, \<open>loaded_good\<close>), a function definition that the parser finishes
  leaves no record of class \<open>Loc\<close>: its last step is the walk of lines 574-582, and the
  table behind it is the table before it with the class, type and value of every \<open>Loc\<close>
  record replaced by the saved ones.
\<close>

theorem C8_no_locals_after_function:
  assumes "tab_ok (sym s)" and "id_ok s" and "function_def n bt s = Cont (bt', s')"
  shows "list_all (\<lambda>r. Class r \<noteq> Loc) (sym s') \<and>
         (\<exists>s1. s' = unwind s1 \<and>
               sym s' = map (\<lambda>r. if Class r = Loc
                                  then r\<lparr>Class := HClass r, Type := HType r, Val := HVal r\<rparr> else r) (sym s1))"
proof -
  have g: "good_id (src s) [] s" using assms(1,2) by (simp add: good_id_def base_def)
  from function_def_good [OF g assms(3)] obtain s1
    where l: "list_all (\<lambda>r. Class r \<noteq> Loc) (sym s')" and b: "base (src s) [] s1" and u: "s' = unwind s1"
    by blast
  from unwind_base(3) [OF b] have "sym s' = map (\<lambda>r. if Class r = Loc
          then r\<lparr>Class := HClass r, Type := HType r, Val := HVal r\<rparr> else r) (sym s1)"
    by (simp add: u restore_def)
  with l u show ?thesis by blast
qed

subsection \<open>The word \<^verbatim>\<open>void\<close>\<close>

lemma scan_ident_stop:
  "\<not> (is_letter (peek rest) \<or> is_digit (peek rest)) \<Longrightarrow> scan_ident h rest = (h, rest)"
  by (cases rest) auto

lemma sym_walk_keys:
  "keys tab = keys tab' \<Longrightarrow> sym_walk tab i h pp n = sym_walk tab' i h pp n"
proof (induction tab arbitrary: tab' i)
  case Nil
  then show ?case by (simp add: keys_def)
next
  case (Cons r tab)
  then obtain r' tab'' where t: "tab' = r' # tab''" by (cases tab') (auto simp: keys_def)
  with Cons.prems have k: "Tk r = Tk r'" "Hash r = Hash r'" "Name r = Name r'" "keys tab = keys tab''"
    by (simp_all add: keys_def)
  show ?case unfolding t using k(1,2,3) Cons.IH [OF k(4)] by simp
qed

lemma sym_walk_append_found:
  "sym_walk tab i h pp n = (j, True) \<Longrightarrow> sym_walk (tab @ rest) i h pp n = (j, True)"
  by (induction tab arbitrary: i) (auto split: if_splits)

lemma keys_take: "keys (take n tab) = take n (keys tab)"
  by (simp add: keys_def take_map)

lemma sym_walk_seeded_prefix:
  assumes "take 18 (keys tab) = take 18 (keys seeded_sym)"
    and "sym_walk (take 18 seeded_sym) 0 h pp n = (j, True)"
  shows "sym_walk tab 0 h pp n = (j, True)"
proof -
  have "keys (take 18 tab) = keys (take 18 seeded_sym)" using assms(1) by (simp add: keys_take)
  from sym_walk_keys [OF this] assms(2) have "sym_walk (take 18 tab) 0 h pp n = (j, True)" by simp
  from sym_walk_append_found [OF this, of "drop 18 tab"] show ?thesis by simp
qed

lemma walk_void:
  "sym_walk (take 18 seeded_sym) 0 24143606276 (CHR ''v'' # CHR ''o'' # CHR ''i'' # CHR ''d'' # rest) 4 = (17, True)"
  by (simp add: seeded_sym_def keyword_text_def)

lemma walk_char:
  "sym_walk (take 18 seeded_sym) 0 20271199108 (CHR ''c'' # CHR ''h'' # CHR ''a'' # CHR ''r'' # rest) 4 = (0, True)"
  by (simp add: seeded_sym_def keyword_text_def)

lemma seeded_tk:
  assumes "take 18 (keys tab) = take 18 (keys seeded_sym)" and "i < 18"
  shows "Tk (sym_at tab i) = Tk (seeded_sym ! i)"
proof -
  have "length (take 18 (keys tab)) = length (take 18 (keys seeded_sym))" by (simp only: assms(1))
  then have l: "18 \<le> length tab" by (simp add: keys_def length_seeded_sym)
  have "keys tab ! i = take 18 (keys tab) ! i" using assms(2) by simp
  also have "\<dots> = keys seeded_sym ! i" unfolding assms(1) using assms(2) by simp
  finally show ?thesis using l assms(2) by (simp add: keys_def sym_at_def length_seeded_sym)
qed

theorem C9_void_is_char:
  assumes "take 18 (keys (sym s)) = take 18 (keys seeded_sym)"
    and "\<not> (is_letter (peek rest) \<or> is_digit (peek rest))"
  shows "Tk (seeded_sym ! 17) = Char' \<and> take 4 (Name (seeded_sym ! 17)) = ''void'' \<and>
         next' (s\<lparr>p := ''void'' @ rest\<rparr>) = s\<lparr>tk := Char', p := rest, id' := 17\<rparr> \<and>
         next' (s\<lparr>p := ''char'' @ rest\<rparr>) = s\<lparr>tk := Char', p := rest, id' := 0\<rparr>"
proof -
  have a: "Tk (seeded_sym ! 17) = Char' \<and> take 4 (Name (seeded_sym ! 17)) = ''void''"
    by (simp add: seeded_sym_def keyword_text_def)
  have t17: "Tk (sym_at (sym s) 17) = Char'" and t0: "Tk (sym_at (sym s) 0) = Char'"
    using seeded_tk [OF assms(1), of 17] seeded_tk [OF assms(1), of 0] by (simp_all add: seeded_sym_def)
  have v: "next' (s\<lparr>p := ''void'' @ rest\<rparr>) = s\<lparr>tk := Char', p := rest, id' := 17\<rparr>"
    by (subst next'.simps)
       (simp add: Let_def cval_def is_letter_def is_digit_def ident_def
          scan_ident_stop [OF assms(2)] sym_walk_seeded_prefix [OF assms(1) walk_void] t17)
  have c: "next' (s\<lparr>p := ''char'' @ rest\<rparr>) = s\<lparr>tk := Char', p := rest, id' := 0\<rparr>"
    by (subst next'.simps)
       (simp add: Let_def cval_def is_letter_def is_digit_def ident_def
          scan_ident_stop [OF assms(2)] sym_walk_seeded_prefix [OF assms(1) walk_char] t0)
  from a v c show ?thesis by simp
qed

end
